theory Spec2Isabelle
  imports Main "HOL-Library.Sublist"
begin

text \<open>
  A model of the book excerpt agent: the excerpt extractor and the catalog search of
  bookAgent.ts, the input sanitiser and the error responses of validation.ts, and the task
  handlers of telexIntegration.ts. Pure functions are HOL functions; a handler takes the
  environment it reads (clock, random suffix, the agent call), the request and the task
  store, and returns its response with the store it leaves. A thrown error is the left
  injection of a sum.
\<close>

section \<open>JavaScript strings\<close>

text \<open>
  A string is the list of its UTF-16 code units. The character predicates are those the
  regular expressions of the program refer to: line terminators for the dot, white space
  for \<^verbatim>\<open>\s\<close> and trim, word characters for \<^verbatim>\<open>\w\<close>.
\<close>

type_synonym jschar = nat

type_synonym jsstring = "jschar list"

definition str :: "string \<Rightarrow> jsstring" where
  "str s = map of_char s"

definition isLineTerminator :: "jschar \<Rightarrow> bool" where
  "isLineTerminator c = (c = 10 \<or> c = 13 \<or> c = 8232 \<or> c = 8233)"

definition isWhiteSpace :: "jschar \<Rightarrow> bool" where
  "isWhiteSpace c = (c = 9 \<or> c = 10 \<or> c = 11 \<or> c = 12 \<or> c = 13 \<or> c = 32 \<or> c = 160
      \<or> c = 5760 \<or> (8192 \<le> c \<and> c \<le> 8202) \<or> c = 8232 \<or> c = 8233 \<or> c = 8239
      \<or> c = 8287 \<or> c = 12288 \<or> c = 65279)"

definition isDigit :: "jschar \<Rightarrow> bool" where
  "isDigit c = (48 \<le> c \<and> c \<le> 57)"

definition isUpper :: "jschar \<Rightarrow> bool" where
  "isUpper c = (65 \<le> c \<and> c \<le> 90)"

definition isLower :: "jschar \<Rightarrow> bool" where
  "isLower c = (97 \<le> c \<and> c \<le> 122)"

definition isWordChar :: "jschar \<Rightarrow> bool" where
  "isWordChar c = (isUpper c \<or> isLower c \<or> isDigit c \<or> c = 95)"

definition trim :: "jsstring \<Rightarrow> jsstring" where
  "trim s = rev (dropWhile isWhiteSpace (rev (dropWhile isWhiteSpace s)))"

definition canonicalize :: "jschar \<Rightarrow> jschar" where
  "canonicalize c = (if isLower c then c - 32 else c)"

definition swapCase :: "jschar \<Rightarrow> jschar" where
  "swapCase c = (if isLower c then c - 32 else if isUpper c then c + 32 else c)"

section \<open>Regular expressions\<close>

text \<open>
  One backtracking matcher runs every regular expression of the program. An expression
  is a sequence of items; \<open>ms ic r p s\<close> lists, in the order in which the engine tries
  them, the states (last character consumed, remaining input) in which \<open>r\<close> can stop when
  started on \<open>s\<close> after the character \<open>p\<close>. The flag \<open>ic\<close> is the flag i, with case
  folding on the letters A to Z. A star whose body consumes nothing stops, as in
  ECMAScript. On top of the matcher stand test, replace with the flag g, and split.
\<close>

datatype item =
    Chr jschar
  | Cls "jschar \<Rightarrow> bool"
  | NCls "jschar \<Rightarrow> bool"
  | Alt "item list" "item list"
  | Star bool "item list"
  | Opt "item list"
  | NotAhead "item list"
  | WordB
  | Bol
  | Eol

definition chrMatches :: "bool \<Rightarrow> jschar \<Rightarrow> jschar \<Rightarrow> bool" where
  "chrMatches ic a x = (if ic then canonicalize a = canonicalize x else a = x)"

definition clsMatches :: "bool \<Rightarrow> (jschar \<Rightarrow> bool) \<Rightarrow> jschar \<Rightarrow> bool" where
  "clsMatches ic A x = (A x \<or> (ic \<and> A (swapCase x)))"

definition atWordBoundary :: "jschar option \<Rightarrow> jsstring \<Rightarrow> bool" where
  "atWordBoundary p s =
     ((case p of None \<Rightarrow> False | Some a \<Rightarrow> isWordChar a)
        \<noteq> (case s of [] \<Rightarrow> False | b # _ \<Rightarrow> isWordChar b))"

type_synonym mstate = "jschar option \<times> jsstring"

function ms :: "bool \<Rightarrow> item list \<Rightarrow> jschar option \<Rightarrow> jsstring \<Rightarrow> mstate list" where
  "ms ic [] p s = [(p, s)]"
| "ms ic (Chr a # r) p [] = []"
| "ms ic (Chr a # r) p (x # xs) = (if chrMatches ic a x then ms ic r (Some x) xs else [])"
| "ms ic (Cls A # r) p [] = []"
| "ms ic (Cls A # r) p (x # xs) = (if clsMatches ic A x then ms ic r (Some x) xs else [])"
| "ms ic (NCls A # r) p [] = []"
| "ms ic (NCls A # r) p (x # xs) = (if \<not> clsMatches ic A x then ms ic r (Some x) xs else [])"
| "ms ic (Alt a b # r) p s = ms ic (a @ r) p s @ ms ic (b @ r) p s"
| "ms ic (Star greedy body # r) p s =
     (let again = concat (map (\<lambda>(p', s'). if length s' < length s
                                            then ms ic (Star greedy body # r) p' s' else [])
                           (ms ic body p s));
          leave = ms ic r p s
      in if greedy then again @ leave else leave @ again)"
| "ms ic (Opt body # r) p s = ms ic (body @ r) p s @ ms ic r p s"
| "ms ic (NotAhead body # r) p s = (if ms ic body p s = [] then ms ic r p s else [])"
| "ms ic (WordB # r) p s = (if atWordBoundary p s then ms ic r p s else [])"
| "ms ic (Bol # r) p s = (if p = None then ms ic r p s else [])"
| "ms ic (Eol # r) p s = (if s = [] then ms ic r p s else [])"
  by pat_completeness auto

termination
  by (relation "measures [\<lambda>(ic, r, p, s). length s, \<lambda>(ic, r, p, s). size_list size r]") auto

declare ms.simps(9) [simp del]

definition firstMatch :: "bool \<Rightarrow> item list \<Rightarrow> jschar option \<Rightarrow> jsstring \<Rightarrow> mstate option" where
  "firstMatch ic rx p s = (case ms ic rx p s of [] \<Rightarrow> None | m # _ \<Rightarrow> Some m)"

fun rxSearch :: "bool \<Rightarrow> item list \<Rightarrow> jschar option \<Rightarrow> jsstring \<Rightarrow> bool" where
  "rxSearch ic rx p [] = (firstMatch ic rx p [] \<noteq> None)"
| "rxSearch ic rx p (x # xs) = (firstMatch ic rx p (x # xs) \<noteq> None \<or> rxSearch ic rx (Some x) xs)"

definition rxTest :: "bool \<Rightarrow> item list \<Rightarrow> jsstring \<Rightarrow> bool" where
  "rxTest ic rx s = rxSearch ic rx None s"

function rxReplaceFrom :: "bool \<Rightarrow> item list \<Rightarrow> jsstring \<Rightarrow> jschar option \<Rightarrow> jsstring \<Rightarrow> jsstring" where
  "rxReplaceFrom ic rx rep p s =
     (case firstMatch ic rx p s of
        Some (p', s') \<Rightarrow>
          if length s' < length s then rep @ rxReplaceFrom ic rx rep p' s'
          else (case s of [] \<Rightarrow> rep | x # xs \<Rightarrow> rep @ x # rxReplaceFrom ic rx rep (Some x) xs)
      | None \<Rightarrow> (case s of [] \<Rightarrow> [] | x # xs \<Rightarrow> x # rxReplaceFrom ic rx rep (Some x) xs))"
  by pat_completeness auto

termination
  by (relation "measure (\<lambda>(ic, rx, rep, p, s). length s)") auto

declare rxReplaceFrom.simps [simp del]

definition rxReplaceAll :: "bool \<Rightarrow> item list \<Rightarrow> jsstring \<Rightarrow> jsstring \<Rightarrow> jsstring" where
  "rxReplaceAll ic rx rep s = rxReplaceFrom ic rx rep None s"

function rxSplitFrom :: "bool \<Rightarrow> item list \<Rightarrow> jsstring \<Rightarrow> jschar option \<Rightarrow> jsstring \<Rightarrow> jsstring list" where
  "rxSplitFrom ic rx cur p [] = [cur]"
| "rxSplitFrom ic rx cur p (x # xs) =
     (case firstMatch ic rx p (x # xs) of
        None \<Rightarrow> rxSplitFrom ic rx (cur @ [x]) (Some x) xs
      | Some (p', s') \<Rightarrow>
          if length s' < length (x # xs) then cur # rxSplitFrom ic rx [] p' s'
          else if cur = [] then rxSplitFrom ic rx [x] (Some x) xs
          else cur # rxSplitFrom ic rx [x] (Some x) xs)"
  by pat_completeness auto

termination
  by (relation "measure (\<lambda>(ic, rx, cur, p, s). length s)") auto

declare rxSplitFrom.simps [simp del]

definition rxSplit :: "bool \<Rightarrow> item list \<Rightarrow> jsstring \<Rightarrow> jsstring list" where
  "rxSplit ic rx s =
     (if s = [] then (if firstMatch ic rx None [] \<noteq> None then [] else [[]])
      else rxSplitFrom ic rx [] None s)"

definition dot :: item where
  "dot = Cls (\<lambda>c. \<not> isLineTerminator c)"

definition lit :: "string \<Rightarrow> item list" where
  "lit w = map Chr (str w)"

definition plus :: "bool \<Rightarrow> item list \<Rightarrow> item list" where
  "plus greedy body = body @ [Star greedy body]"

fun alts :: "item list list \<Rightarrow> item list" where
  "alts [] = []"
| "alts [a] = a"
| "alts (a # b # bs) = [Alt a (alts (b # bs))]"

section \<open>Excerpt extraction\<close>

text \<open>
  The function extractCleanExcerpt of bookAgent.ts, one definition for each step: the
  three replacements that strip boilerplate, the split into non-blank lines, the scan
  for the start line, the clean-up of the joined lines and the length policy.
\<close>

definition isCrLf :: "jschar \<Rightarrow> bool" where
  "isCrLf c = (c = 13 \<or> c = 10)"

definition headerRx :: "item list" where
  "headerRx = [Star False [dot]] @ lit ''Project Gutenberg'' @ [Star False [dot]] @ plus True [Cls isCrLf]"

definition footerRx1 :: "item list" where
  "footerRx1 = plus True [Cls isCrLf] @ [Star False [dot]] @ lit ''End of Project Gutenberg''
                 @ [Star True [dot], Eol]"

definition footerRx2 :: "item list" where
  "footerRx2 = plus True [Cls isCrLf] @ [Star False [dot]] @ lit ''END OF'' @ [Star False [dot]]
                 @ lit ''PROJECT GUTENBERG'' @ [Star True [dot], Eol]"

definition stripHeader :: "jsstring \<Rightarrow> jsstring" where
  "stripHeader s = rxReplaceAll True headerRx [] s"

definition stripFooter1 :: "jsstring \<Rightarrow> jsstring" where
  "stripFooter1 s = rxReplaceAll True footerRx1 [] s"

definition stripFooter2 :: "jsstring \<Rightarrow> jsstring" where
  "stripFooter2 s = rxReplaceAll True footerRx2 [] s"

definition cleanedTextOf :: "jsstring \<Rightarrow> jsstring" where
  "cleanedTextOf fullText = stripFooter2 (stripFooter1 (stripHeader fullText))"

definition linesOf :: "jsstring \<Rightarrow> jsstring list" where
  "linesOf cleanedText =
     filter (\<lambda>line. length (trim line) > 0) (rxSplit False (plus True [Cls isCrLf]) cleanedText)"

definition chapterRx :: "item list" where
  "chapterRx = [Bol] @ alts [lit ''chapter'', lit ''contents'', lit ''index'', lit ''table of contents'']"

definition romanRx :: "item list" where
  "romanRx = [Bol] @ plus True [Cls (\<lambda>c. c = 73 \<or> c = 86 \<or> c = 88)] @ [Opt [Chr 46]]
               @ [Star True [Cls isWhiteSpace], Eol]"

definition digitsRx :: "item list" where
  "digitsRx = [Bol] @ plus True [Cls isDigit] @ [Opt [Chr 46]] @ [Star True [Cls isWhiteSpace], Eol]"

definition goodStart :: "jsstring \<Rightarrow> bool" where
  "goodStart l =
     (let line = trim l
      in length line > 50
       \<and> \<not> rxTest True chapterRx line
       \<and> \<not> rxTest True romanRx line
       \<and> \<not> rxTest False digitsRx line)"

function startLoop :: "jsstring list \<Rightarrow> nat \<Rightarrow> nat" where
  "startLoop lines i =
     (if i < min 20 (length lines)
      then (if goodStart (lines ! i) then i else startLoop lines (i + 1))
      else 0)"
  by pat_completeness auto

termination
  by (relation "measure (\<lambda>(lines, i). min 20 (length lines) - i)") auto

declare startLoop.simps [simp del]

definition startIndexOf :: "jsstring list \<Rightarrow> nat" where
  "startIndexOf lines = startLoop lines 0"

fun joinWith :: "jsstring \<Rightarrow> jsstring list \<Rightarrow> jsstring" where
  "joinWith sep [] = []"
| "joinWith sep [a] = a"
| "joinWith sep (a # b # bs) = a @ sep @ joinWith sep (b # bs)"

definition slice :: "'a list \<Rightarrow> nat \<Rightarrow> nat \<Rightarrow> 'a list" where
  "slice xs a b = take (b - a) (drop a xs)"

definition cleanUp :: "jsstring \<Rightarrow> jsstring" where
  "cleanUp excerpt =
     rxReplaceAll False
       [NCls (\<lambda>c. isWordChar c \<or> isWhiteSpace c \<or> c = 46 \<or> c = 44 \<or> c = 33 \<or> c = 63 \<or> c = 59
                 \<or> c = 58 \<or> c = 39 \<or> c = 34 \<or> c = 40 \<or> c = 41 \<or> c = 45)] []
       (rxReplaceAll False [Cls (\<lambda>c. c = 39 \<or> c = 39)] [39]
          (rxReplaceAll False [Cls (\<lambda>c. c = 34 \<or> c = 34)] [34]
             (rxReplaceAll False (plus True [Cls isWhiteSpace]) [32] excerpt)))"

definition excerptLinesOf :: "jsstring list \<Rightarrow> jsstring list" where
  "excerptLinesOf lines = (let startIndex = startIndexOf lines in slice lines startIndex (startIndex + 10))"

definition excerptOf :: "jsstring list \<Rightarrow> jsstring" where
  "excerptOf lines = cleanUp (trim (joinWith [32] (excerptLinesOf lines)))"

definition lengthPolicy :: "jsstring \<Rightarrow> jsstring list \<Rightarrow> nat \<Rightarrow> jsstring" where
  "lengthPolicy excerpt lines startIndex =
     (let excerpt =
        (if length excerpt > 500 then take 497 excerpt @ str ''...''
         else if length excerpt < 100 \<and> startIndex + 10 < length lines then
           (let moreLines = slice lines (startIndex + 10) (startIndex + 20);
                moreText = trim (joinWith [32] moreLines)
            in take 497 (excerpt @ [32] @ moreText) @ str ''...'')
         else excerpt)
      in if excerpt = [] then str ''Excerpt not available for this book.'' else excerpt)"

definition extractCleanExcerpt :: "jsstring \<Rightarrow> jsstring \<Rightarrow> jsstring" where
  "extractCleanExcerpt fullText bookTitle =
     (let lines = linesOf (cleanedTextOf fullText)
      in lengthPolicy (excerptOf lines) lines (startIndexOf lines))"

section \<open>Catalog search\<close>

text \<open>
  The function searchGutenbergBooks of bookAgent.ts. The HTTP client and the URI encoder
  are parameters: \<open>get url k\<close> is the outcome of the request made by attempt \<open>k\<close>. The
  trace records every request sent and every timer armed, in order.
\<close>

datatype net_event = HttpGet jsstring | SetTimeout nat

datatype ('e, 'r) search_outcome
  = Thrown 'e            \<comment> \<open>the promise rejects with this error\<close>
  | Returned 'r          \<comment> \<open>\<open>return response\<close>\<close>
  | ReturnedUndefined    \<comment> \<open>the loop ends without a \<open>return\<close>\<close>

function searchLoop ::
  "(jsstring \<Rightarrow> nat \<Rightarrow> 'e + 'r) \<Rightarrow> jsstring \<Rightarrow> nat \<Rightarrow> nat \<Rightarrow> net_event list
    \<Rightarrow> ('e, 'r) search_outcome \<times> net_event list" where
  "searchLoop get url maxRetries attempt tr =
     (if attempt \<le> maxRetries then
        (case get url attempt of
           Inr response \<Rightarrow> (Returned response, tr @ [HttpGet url])
         | Inl error \<Rightarrow>
             if attempt = maxRetries then (Thrown error, tr @ [HttpGet url])
             else
               let delay = 2 ^ attempt * 1000
               in searchLoop get url maxRetries (attempt + 1)
                    (tr @ [HttpGet url, SetTimeout delay]))
      else (ReturnedUndefined, tr))"
  by pat_completeness auto

termination
  by (relation "measure (\<lambda>(get, url, maxRetries, attempt, tr). Suc maxRetries - attempt)") auto

declare searchLoop.simps [simp del]

definition searchGutenbergBooks ::
  "(jsstring \<Rightarrow> 'e + jsstring) \<Rightarrow> (jsstring \<Rightarrow> nat \<Rightarrow> 'e + 'r) \<Rightarrow> jsstring \<Rightarrow> nat
    \<Rightarrow> ('e, 'r) search_outcome \<times> net_event list" where
  "searchGutenbergBooks encodeURIComponent get searchQuery maxRetries =
     (let baseUrl = str ''https://gutendex.com/books''
      in case encodeURIComponent searchQuery of
           Inl error \<Rightarrow> (Thrown error, [])
         | Inr encodedQuery \<Rightarrow>
             let url = baseUrl @ str ''?search='' @ encodedQuery
             in searchLoop get url maxRetries 1 [])"

definition defaultMaxRetries :: nat where
  "defaultMaxRetries = 3"

text \<open>
  The requests sent and the delays waited, read off a trace.
\<close>

fun attempts :: "net_event list \<Rightarrow> nat" where
  "attempts [] = 0"
| "attempts (HttpGet u # tr) = Suc (attempts tr)"
| "attempts (SetTimeout d # tr) = attempts tr"

fun delays :: "net_event list \<Rightarrow> nat list" where
  "delays [] = []"
| "delays (HttpGet u # tr) = delays tr"
| "delays (SetTimeout d # tr) = d # delays tr"

section \<open>Notions that describe matches\<close>

text \<open>
  Literal prefixes and occurrences, the first result of a match, and the shapes of the
  texts on which the boilerplate expressions are characterised: a line followed by a run
  of line breaks, and a body followed by a run of line breaks and a last line.
\<close>

fun litPrefix :: "bool \<Rightarrow> jsstring \<Rightarrow> jsstring \<Rightarrow> bool" where
  "litPrefix ic [] s = True"
| "litPrefix ic (a # w) [] = False"
| "litPrefix ic (a # w) (x # xs) = (chrMatches ic a x \<and> litPrefix ic w xs)"

fun containsLit :: "bool \<Rightarrow> jsstring \<Rightarrow> jsstring \<Rightarrow> bool" where
  "containsLit ic w [] = litPrefix ic w []"
| "containsLit ic w (x # xs) = (litPrefix ic w (x # xs) \<or> containsLit ic w xs)"

definition firstOf :: "mstate list \<Rightarrow> jsstring option" where
  "firstOf rs = (case rs of [] \<Rightarrow> None | r # _ \<Rightarrow> Some (snd r))"

definition caseClosed :: "(jschar \<Rightarrow> bool) \<Rightarrow> bool" where
  "caseClosed A = (\<forall>x. A (swapCase x) \<longrightarrow> A x)"

fun lineEnd :: "jsstring \<Rightarrow> jsstring option" where
  "lineEnd [] = None"
| "lineEnd (x # xs) =
     (if isCrLf x then Some (dropWhile isCrLf xs)
      else if isLineTerminator x then None
      else lineEnd xs)"

definition textEnd :: "jsstring \<Rightarrow> jsstring option" where
  "textEnd s = (if list_all (\<lambda>c. \<not> isLineTerminator c) s then Some [] else None)"

fun lazyFind :: "jsstring \<Rightarrow> (jsstring \<Rightarrow> jsstring option) \<Rightarrow> jsstring \<Rightarrow> jsstring option" where
  "lazyFind w k [] = (if litPrefix True w [] then k [] else None)"
| "lazyFind w k (x # xs) =
     (case (if litPrefix True w (x # xs) then k (drop (length w) (x # xs)) else None) of
        Some r \<Rightarrow> Some r
      | None \<Rightarrow> if isLineTerminator x then None else lazyFind w k xs)"

definition afterBreak :: "(jsstring \<Rightarrow> jsstring option) \<Rightarrow> jsstring \<Rightarrow> jsstring option" where
  "afterBreak k s =
     (case s of [] \<Rightarrow> None | x # xs \<Rightarrow> if isCrLf x then k (dropWhile isCrLf xs) else None)"

function deleteMatches :: "(jsstring \<Rightarrow> jsstring option) \<Rightarrow> jsstring \<Rightarrow> jsstring" where
  "deleteMatches f s =
     (case f s of
        Some r \<Rightarrow>
          if length r < length s then deleteMatches f r
          else (case s of [] \<Rightarrow> [] | x # xs \<Rightarrow> x # deleteMatches f xs)
      | None \<Rightarrow> (case s of [] \<Rightarrow> [] | x # xs \<Rightarrow> x # deleteMatches f xs))"
  by pat_completeness auto

termination
  by (relation "measure (\<lambda>(f, s). length s)") auto

declare deleteMatches.simps [simp del]

definition plainLit :: "jsstring \<Rightarrow> bool" where
  "plainLit w = (w \<noteq> [] \<and> (\<forall>a \<in> set w. \<not> isLineTerminator (canonicalize a)))"

definition lineShape :: "jsstring \<Rightarrow> jsstring \<Rightarrow> jsstring \<Rightarrow> bool" where
  "lineShape l brk rest =
     ((\<forall>c \<in> set l. \<not> isLineTerminator c) \<and> brk \<noteq> [] \<and> (\<forall>c \<in> set brk. isCrLf c)
      \<and> (rest = [] \<or> \<not> isCrLf (hd rest)))"

fun containsLit2 :: "jsstring \<Rightarrow> jsstring \<Rightarrow> jsstring \<Rightarrow> bool" where
  "containsLit2 a b [] = (litPrefix True a [] \<and> containsLit True b [])"
| "containsLit2 a b (x # xs) =
     ((litPrefix True a (x # xs) \<and> containsLit True b (drop (length a) (x # xs)))
      \<or> containsLit2 a b xs)"

definition footShape :: "jsstring \<Rightarrow> jsstring \<Rightarrow> jsstring \<Rightarrow> bool" where
  "footShape body brk lastLine =
     ((body = [] \<or> \<not> isCrLf (last body)) \<and> brk \<noteq> [] \<and> (\<forall>c \<in> set brk. isCrLf c)
      \<and> (\<forall>c \<in> set lastLine. \<not> isLineTerminator c))"

definition failsOnLT :: "(jsstring \<Rightarrow> jsstring option) \<Rightarrow> bool" where
  "failsOnLT k = (\<forall>t. (\<exists>c \<in> set t. isLineTerminator c) \<longrightarrow> k t = None)"






section \<open>JSON values and thrown errors\<close>

datatype json =
    JUndefined
  | JNull
  | JBool bool
  | JNum int
  | JStr jsstring
  | JArr "json list"
  | JObj "(jsstring \<times> json) list"

fun truthy :: "json \<Rightarrow> bool" where
  "truthy JUndefined = False"
| "truthy JNull = False"
| "truthy (JBool b) = b"
| "truthy (JNum n) = (n \<noteq> 0)"
| "truthy (JStr s) = (s \<noteq> [])"
| "truthy (JArr xs) = True"
| "truthy (JObj kvs) = True"

fun getProp :: "json \<Rightarrow> string \<Rightarrow> json" where
  "getProp (JObj kvs) k = (case map_of kvs (str k) of None \<Rightarrow> JUndefined | Some v \<Rightarrow> v)"
| "getProp v k = JUndefined"

datatype js_error =
    ValidationError jsstring json
  | ExternalAPIError jsstring jsstring jsstring
  | OtherError jsstring
  | ZodError

fun errorMessage :: "js_error \<Rightarrow> jsstring" where
  "errorMessage (ValidationError m d) = m"
| "errorMessage (ExternalAPIError m s c) = m"
| "errorMessage (OtherError m) = m"
| "errorMessage ZodError = str ''Invalid input''"

fun errorDetails :: "js_error \<Rightarrow> json" where
  "errorDetails (ValidationError m d) = d"
| "errorDetails e = JUndefined"

section \<open>Input sanitisation\<close>

text \<open>
  The functions sanitizeString and validateTaskId of validation.ts, and the task id schema
  built from them.
\<close>

definition isControlChar :: "jschar \<Rightarrow> bool" where
  "isControlChar c = (c \<le> 8 \<or> c = 11 \<or> c = 12 \<or> (14 \<le> c \<and> c \<le> 31) \<or> c = 127)"

definition sanitizeString :: "json \<Rightarrow> js_error + jsstring" where
  "sanitizeString input =
     (case input of
        JStr s \<Rightarrow> Inr (trim (rxReplaceAll False [Cls isControlChar] [] s))
      | _ \<Rightarrow> Inl (ValidationError (str ''Input must be a string'') JUndefined))"

definition isTaskIdChar :: "jschar \<Rightarrow> bool" where
  "isTaskIdChar c = (isLower c \<or> isUpper c \<or> isDigit c \<or> c = 95 \<or> c = 45)"

definition taskIdRx :: "item list" where
  "taskIdRx = [Bol] @ plus True [Cls isTaskIdChar] @ [Eol]"

definition validateTaskId :: "json \<Rightarrow> js_error + jsstring" where
  "validateTaskId taskId =
     (case sanitizeString taskId of
        Inl e \<Rightarrow> Inl e
      | Inr sanitized \<Rightarrow>
          if sanitized = [] then Inl (ValidationError (str ''Task ID is required'') JUndefined)
          else if \<not> rxTest False taskIdRx sanitized
            then Inl (ValidationError (str ''Invalid task ID format'') JUndefined)
          else Inr sanitized)"

definition parseTaskId :: "json \<Rightarrow> js_error + jsstring" where
  "parseTaskId v =
     (case v of
        JStr s \<Rightarrow> if length s < 1 then Inl ZodError else validateTaskId (JStr s)
      | _ \<Rightarrow> Inl ZodError)"

section \<open>Tasks, task store and environment\<close>

text \<open>
  The task record of telexIntegration.ts, the store as a map from task ids, and the
  environment a handler reads: the clock, the random suffix of a new task id, the URL
  parser, the agent call \<open>generate\<close>, and whether the call of the info logger that
  message/send and message/stream make once the task is stored throws.
\<close>

datatype task_state = Working | Completed | Canceled

fun stateName :: "task_state \<Rightarrow> jsstring" where
  "stateName Working = str ''working''"
| "stateName Completed = str ''completed''"
| "stateName Canceled = str ''canceled''"

record task_status =
  state :: task_state
  timestamp :: jsstring
  message :: json

record artifact =
  a_type :: jsstring
  a_name :: jsstring
  a_data :: json
  a_timestamp :: jsstring

record history_entry =
  h_timestamp :: jsstring
  event :: jsstring
  h_data :: json

datatype auth_type = Bearer | Basic

record authentication =
  auth_type :: auth_type
  token :: "jsstring option"
  username :: "jsstring option"
  password :: "jsstring option"

record push_config =
  url :: "jsstring option"
  authentication :: "authentication option"

record task =
  task_id :: jsstring
  status :: task_status
  artifacts :: "artifact list"
  history :: "history_entry list"
  sessionId :: jsstring
  pushNotificationConfig :: "push_config option"

type_synonym task_store = "jsstring \<rightharpoonup> task"

record env =
  nowIso :: jsstring
  nowMs :: nat
  randomSuffix :: jsstring
  nodeEnv :: jsstring
  errorStack :: "js_error \<Rightarrow> json"
  zodUrl :: "jsstring \<Rightarrow> bool"
  urlParses :: "jsstring \<Rightarrow> bool"
  toLocaleString :: "int \<Rightarrow> jsstring"
  generate :: "jsstring \<Rightarrow> js_error + json"
  loggerInfoThrows :: "js_error option"

datatype rpc_result =
    TaskGetResult task jsstring "int option"
  | TaskCancelResult task jsstring
  | SetPushConfigResult task "push_config option" jsstring
  | GetPushConfigResult jsstring "push_config option" bool jsstring
  | ResubscribeResult task bool jsstring jsstring jsstring
  | MessageSendResult task json "int option"

datatype response =
    RpcResult rpc_result json
  | RpcError int jsstring json json

section \<open>Error responses\<close>

definition createErrorResponse :: "int \<Rightarrow> jsstring \<Rightarrow> json \<Rightarrow> json \<Rightarrow> response" where
  "createErrorResponse code msg ident dat =
     RpcError code msg (if truthy dat then dat else JUndefined) (if truthy ident then ident else JNull)"

definition handleValidationError :: "js_error \<Rightarrow> json \<Rightarrow> response" where
  "handleValidationError error ident =
     createErrorResponse (- 32602) (errorMessage error) ident (errorDetails error)"

definition handleInternalError :: "env \<Rightarrow> js_error \<Rightarrow> json \<Rightarrow> response" where
  "handleInternalError e error ident =
     createErrorResponse (- 32603)
       (if nodeEnv e = str ''production'' then str ''Internal error'' else errorMessage error)
       ident
       (if nodeEnv e = str ''development'' then errorStack e error else JUndefined)"

definition handleTaskNotFound :: "jsstring \<Rightarrow> json \<Rightarrow> response" where
  "handleTaskNotFound taskId ident =
     createErrorResponse (- 32001) (str ''Task not found: '' @ taskId) ident JUndefined"

section \<open>Task handlers\<close>

fun showNat :: "nat \<Rightarrow> jsstring" where
  "showNat n = (if n < 10 then [48 + n] else showNat (n div 10) @ [48 + n mod 10])"

declare showNat.simps [simp del]

definition showInt :: "int \<Rightarrow> jsstring" where
  "showInt i = (if i < 0 then 45 # showNat (nat (- i)) else showNat (nat i))"

fun splitOn :: "jschar \<Rightarrow> jsstring \<Rightarrow> jsstring list" where
  "splitOn c [] = [[]]"
| "splitOn c (x # xs) =
     (if x = c then [] # splitOn c xs
      else (case splitOn c xs of [] \<Rightarrow> [[x]] | y # ys \<Rightarrow> (x # y) # ys))"

definition digitsValue :: "jsstring \<Rightarrow> nat" where
  "digitsValue ds = foldl (\<lambda>a d. 10 * a + (d - 48)) 0 ds"

definition parseInt10 :: "jsstring \<Rightarrow> int option" where
  "parseInt10 s =
     (let t = dropWhile isWhiteSpace s;
          neg = (case t of [] \<Rightarrow> False | c # r \<Rightarrow> c = 45);
          u = (case t of [] \<Rightarrow> [] | c # r \<Rightarrow> if c = 45 \<or> c = 43 then r else t);
          ds = takeWhile isDigit u
      in if ds = [] then None
         else Some (if neg then - int (digitsValue ds) else int (digitsValue ds)))"

definition taskAge :: "env \<Rightarrow> task \<Rightarrow> int option" where
  "taskAge e t =
     (case splitOn 95 (task_id t) of
        a # b # rest \<Rightarrow> map_option (\<lambda>n. int (nowMs e) - n) (parseInt10 b)
      | _ \<Rightarrow> None)"

definition handleTaskGet :: "env \<Rightarrow> json \<Rightarrow> json \<Rightarrow> task_store \<Rightarrow> response \<times> task_store" where
  "handleTaskGet e params ident store =
     (if \<not> truthy params \<or> \<not> truthy (getProp params ''id'') then
        (createErrorResponse (- 32602) (str ''Invalid params: task id is required'') ident JUndefined,
         store)
      else case parseTaskId (getProp params ''id'') of
        Inl error \<Rightarrow>
          (handleValidationError (ValidationError (str ''Invalid task ID format'') JUndefined) ident,
           store)
      | Inr taskId \<Rightarrow>
          (case store taskId of
             None \<Rightarrow> (handleTaskNotFound taskId ident, store)
           | Some task \<Rightarrow>
               (RpcResult (TaskGetResult task (nowIso e) (taskAge e task)) ident, store)))"

definition handleTaskCancel :: "env \<Rightarrow> json \<Rightarrow> json \<Rightarrow> task_store \<Rightarrow> response \<times> task_store" where
  "handleTaskCancel e params ident store =
     (if \<not> truthy params \<or> \<not> truthy (getProp params ''id'') then
        (createErrorResponse (- 32602) (str ''Invalid params: task id is required'') ident JUndefined,
         store)
      else case parseTaskId (getProp params ''id'') of
        Inl error \<Rightarrow>
          (handleValidationError (ValidationError (str ''Invalid task ID format'') JUndefined) ident,
           store)
      | Inr taskId \<Rightarrow>
          (case store taskId of
             None \<Rightarrow> (handleTaskNotFound taskId ident, store)
           | Some task \<Rightarrow>
               if state (status task) = Completed then
                 (createErrorResponse (- 32002)
                    (str ''Task not cancelable: '' @ taskId @ str '' (already completed)'') ident
                    (JObj [(str ''currentState'', JStr (stateName (state (status task))))]),
                  store)
               else if state (status task) = Canceled then
                 (createErrorResponse (- 32002)
                    (str ''Task already canceled: '' @ taskId) ident
                    (JObj [(str ''currentState'', JStr (stateName (state (status task))))]),
                  store)
               else
                 let task = task\<lparr>status :=
                       \<lparr>state = Canceled, timestamp = nowIso e,
                        message = JObj [(str ''role'', JStr (str ''assistant'')),
                          (str ''parts'', JArr [JObj [(str ''type'', JStr (str ''text'')),
                             (str ''text'', JStr (str ''Task was canceled by user request''))]])]\<rparr>\<rparr>;
                     task = task\<lparr>history := history task @
                       [\<lparr>h_timestamp = nowIso e, event = str ''task_canceled'',
                         h_data = JObj [(str ''reason'', JStr (str ''user_request'')),
                                        (str ''canceledAt'', JStr (nowIso e))]\<rparr>]\<rparr>
                 in (RpcResult (TaskCancelResult task (nowIso e)) ident, store(taskId \<mapsto> task))))"

definition parseOptString :: "json \<Rightarrow> js_error + jsstring option" where
  "parseOptString v = (case v of JUndefined \<Rightarrow> Inr None | JStr s \<Rightarrow> Inr (Some s) | _ \<Rightarrow> Inl ZodError)"

definition parseAuthentication :: "json \<Rightarrow> js_error + authentication option" where
  "parseAuthentication v =
     (case v of
        JUndefined \<Rightarrow> Inr None
      | JObj kvs \<Rightarrow>
          (case (if getProp v ''type'' = JStr (str ''bearer'') then Inr Bearer
                 else if getProp v ''type'' = JStr (str ''basic'') then Inr Basic
                 else Inl ZodError) of
             Inl err \<Rightarrow> Inl err
           | Inr ty \<Rightarrow>
              (case parseOptString (getProp v ''token'') of
                 Inl err \<Rightarrow> Inl err
               | Inr tok \<Rightarrow>
                  (case parseOptString (getProp v ''username'') of
                     Inl err \<Rightarrow> Inl err
                   | Inr usr \<Rightarrow>
                      (case parseOptString (getProp v ''password'') of
                         Inl err \<Rightarrow> Inl err
                       | Inr pwd \<Rightarrow>
                           Inr (Some \<lparr>auth_type = ty, token = tok, username = usr,
                                      password = pwd\<rparr>)))))
      | _ \<Rightarrow> Inl ZodError)"

definition parsePushNotificationConfig :: "env \<Rightarrow> json \<Rightarrow> js_error + push_config option" where
  "parsePushNotificationConfig e v =
     (case v of
        JUndefined \<Rightarrow> Inr None
      | JObj kvs \<Rightarrow>
          (case (case getProp v ''url'' of
                   JUndefined \<Rightarrow> Inr None
                 | JStr u \<Rightarrow> if zodUrl e u then Inr (Some u) else Inl ZodError
                 | _ \<Rightarrow> Inl ZodError) of
             Inl err \<Rightarrow> Inl err
           | Inr u \<Rightarrow>
              (case parseAuthentication (getProp v ''authentication'') of
                 Inl err \<Rightarrow> Inl err
               | Inr a \<Rightarrow> Inr (Some \<lparr>url = u, authentication = a\<rparr>)))
      | _ \<Rightarrow> Inl ZodError)"

definition handleSetTaskPushNotificationConfig ::
  "env \<Rightarrow> json \<Rightarrow> json \<Rightarrow> task_store \<Rightarrow> response \<times> task_store" where
  "handleSetTaskPushNotificationConfig e params ident store =
     (if \<not> truthy params \<or> \<not> truthy (getProp params ''id'') then
        (createErrorResponse (- 32602) (str ''Invalid params: task id is required'') ident JUndefined,
         store)
      else if \<not> truthy (getProp params ''pushNotificationConfig'') then
        (createErrorResponse (- 32602)
           (str ''Invalid params: pushNotificationConfig is required'') ident JUndefined,
         store)
      else case parseTaskId (getProp params ''id'') of
        Inl error \<Rightarrow>
          (handleValidationError (ValidationError (str ''Invalid task ID format'') JUndefined) ident,
           store)
      | Inr taskId \<Rightarrow>
          (case parsePushNotificationConfig e (getProp params ''pushNotificationConfig'') of
             Inl error \<Rightarrow>
               (handleValidationError
                  (ValidationError (str ''Invalid push notification configuration'') JUndefined) ident,
                store)
           | Inr None \<Rightarrow>
               (handleInternalError e
                  (OtherError (str ''Cannot read properties of undefined (reading 'url')'')) ident,
                store)
           | Inr (Some config) \<Rightarrow>
               (case store taskId of
                  None \<Rightarrow> (handleTaskNotFound taskId ident, store)
                | Some task \<Rightarrow>
                    if (case url config of
                          None \<Rightarrow> False
                        | Some u \<Rightarrow> u \<noteq> [] \<and> \<not> urlParses e u) then
                      (createErrorResponse (- 32602)
                         (str ''Invalid URL in push notification configuration'') ident JUndefined,
                       store)
                    else
                      let task = task\<lparr>pushNotificationConfig := Some config\<rparr>;
                          task = task\<lparr>history := history task @
                            [\<lparr>h_timestamp = nowIso e, event = str ''push_notification_config_set'',
                              h_data = JObj [(str ''configuredAt'', JStr (nowIso e)),
                                (str ''hasUrl'', JBool (case url config of
                                    None \<Rightarrow> False | Some u \<Rightarrow> u \<noteq> [])),
                                (str ''hasAuth'',
                                   JBool (authentication config \<noteq> None))]\<rparr>]\<rparr>
                      in (RpcResult (SetPushConfigResult task (pushNotificationConfig task) (nowIso e))
                            ident,
                          store(taskId \<mapsto> task)))))"

definition handleGetTaskPushNotificationConfig ::
  "env \<Rightarrow> json \<Rightarrow> json \<Rightarrow> task_store \<Rightarrow> response \<times> task_store" where
  "handleGetTaskPushNotificationConfig e params ident store =
     (if \<not> truthy params \<or> \<not> truthy (getProp params ''id'') then
        (createErrorResponse (- 32602) (str ''Invalid params: task id is required'') ident JUndefined,
         store)
      else case parseTaskId (getProp params ''id'') of
        Inl error \<Rightarrow>
          (handleValidationError (ValidationError (str ''Invalid task ID format'') JUndefined) ident,
           store)
      | Inr taskId \<Rightarrow>
          (case store taskId of
             None \<Rightarrow> (handleTaskNotFound taskId ident, store)
           | Some task \<Rightarrow>
               (RpcResult (GetPushConfigResult (task_id task) (pushNotificationConfig task)
                    (pushNotificationConfig task \<noteq> None) (nowIso e)) ident,
                store)))"

definition handleTaskResubscribe ::
  "env \<Rightarrow> json \<Rightarrow> json \<Rightarrow> task_store \<Rightarrow> response \<times> task_store" where
  "handleTaskResubscribe e params ident store =
     (if \<not> truthy params \<or> \<not> truthy (getProp params ''id'') then
        (createErrorResponse (- 32602) (str ''Invalid params: task id is required'') ident JUndefined,
         store)
      else case parseTaskId (getProp params ''id'') of
        Inl error \<Rightarrow>
          (handleValidationError (ValidationError (str ''Invalid task ID format'') JUndefined) ident,
           store)
      | Inr taskId \<Rightarrow>
          (case store taskId of
             None \<Rightarrow> (handleTaskNotFound taskId ident, store)
           | Some task \<Rightarrow>
               let task = task\<lparr>history := history task @
                     [\<lparr>h_timestamp = nowIso e, event = str ''task_resubscribed'',
                       h_data = JObj [(str ''resubscribedAt'', JStr (nowIso e)),
                         (str ''currentState'', JStr (stateName (state (status task))))]\<rparr>]\<rparr>
               in (RpcResult (ResubscribeResult task True (nowIso e)
                       (stateName (state (status task)))
                       (str ''Successfully resubscribed to task updates'')) ident,
                   store(taskId \<mapsto> task))))"

section \<open>Observations and example data\<close>

text \<open>
  Projections of a response, and the task, store and push notification config that the
  examples below run on.
\<close>

definition returnedTask :: "response \<Rightarrow> task option" where
  "returnedTask r = (case r of RpcResult (TaskGetResult t ra ag) i \<Rightarrow> Some t | _ \<Rightarrow> None)"

definition exampleEnv :: env where
  "exampleEnv = \<lparr>nowIso = str ''2024-01-01T12:00:00.000Z'', nowMs = 1704110400000,
     randomSuffix = str ''abc123def'', nodeEnv = str ''test'',
     errorStack = (\<lambda>err. JUndefined),
     zodUrl = (\<lambda>u. take 8 u = str ''https://''),
     urlParses = (\<lambda>u. take 8 u = str ''https://''),
     toLocaleString = showInt,
     generate = (\<lambda>instruction. Inl (OtherError (str ''Request timeout''))),
     loggerInfoThrows = None\<rparr>"

definition exampleTask :: "task_state \<Rightarrow> task" where
  "exampleTask st = \<lparr>task_id = str ''task_1_abc'',
     status = \<lparr>state = st, timestamp = str ''2024-01-01T11:59:00.000Z'', message = JUndefined\<rparr>,
     artifacts = [], history = [], sessionId = str ''session_1'',
     pushNotificationConfig = None\<rparr>"

definition exampleStore :: "task_state \<Rightarrow> task_store" where
  "exampleStore st = [str ''task_1_abc'' \<mapsto> exampleTask st]"

definition configTokens :: "push_config option \<Rightarrow> jsstring list" where
  "configTokens c =
     (case c of
        None \<Rightarrow> []
      | Some cfg \<Rightarrow>
          (case authentication cfg of
             None \<Rightarrow> []
           | Some a \<Rightarrow> (case token a of None \<Rightarrow> [] | Some tok \<Rightarrow> [tok])))"

fun resultTokens :: "rpc_result \<Rightarrow> jsstring list" where
  "resultTokens (TaskGetResult t ra ag) = configTokens (pushNotificationConfig t)"
| "resultTokens (TaskCancelResult t ca) = configTokens (pushNotificationConfig t)"
| "resultTokens (SetPushConfigResult t c ca) =
     configTokens (pushNotificationConfig t) @ configTokens c"
| "resultTokens (GetPushConfigResult i c h ra) = configTokens c"
| "resultTokens (ResubscribeResult t r ra cs m) = configTokens (pushNotificationConfig t)"
| "resultTokens (MessageSendResult t m pt) = configTokens (pushNotificationConfig t)"

fun responseTokens :: "response \<Rightarrow> jsstring list" where
  "responseTokens (RpcResult r i) = resultTokens r"
| "responseTokens (RpcError c m d i) = []"

fun responseConfig :: "response \<Rightarrow> push_config option" where
  "responseConfig (RpcResult (SetPushConfigResult t c ca) i) = c"
| "responseConfig (RpcResult (GetPushConfigResult ti c h ra) i) = c"
| "responseConfig r = None"

definition exampleConfig :: json where
  "exampleConfig = JObj [(str ''url'', JStr (str ''https://example.com/webhook'')),
     (str ''authentication'', JObj [(str ''type'', JStr (str ''bearer'')),
        (str ''token'', JStr (str ''test-token''))])]"

definition exampleParsedConfig :: push_config where
  "exampleParsedConfig = \<lparr>url = Some (str ''https://example.com/webhook''),
     authentication = Some \<lparr>auth_type = Bearer, token = Some (str ''test-token''),
        username = None, password = None\<rparr>\<rparr>"

section \<open>Handling message/send\<close>

fun isArray :: "json \<Rightarrow> bool" where
  "isArray (JArr xs) = True"
| "isArray v = False"

fun jsToString :: "json \<Rightarrow> jsstring" where
  "jsToString JUndefined = str ''undefined''"
| "jsToString JNull = str ''null''"
| "jsToString (JBool b) = (if b then str ''true'' else str ''false'')"
| "jsToString (JNum n) = showInt n"
| "jsToString (JStr s) = s"
| "jsToString (JArr xs) =
     joinWith [44] (map (\<lambda>x. if x = JNull \<or> x = JUndefined then [] else jsToString x) xs)"
| "jsToString (JObj kvs) = str ''[object Object]''"

definition joinArray :: "jsstring \<Rightarrow> json list \<Rightarrow> jsstring" where
  "joinArray sep xs =
     joinWith sep (map (\<lambda>x. if x = JNull \<or> x = JUndefined then [] else jsToString x) xs)"

fun includesStr :: "jsstring \<Rightarrow> jsstring \<Rightarrow> bool" where
  "includesStr [] sub = (sub = [])"
| "includesStr (x # xs) sub = (prefix sub (x # xs) \<or> includesStr xs sub)"

fun replaceFirst :: "jsstring \<Rightarrow> jsstring \<Rightarrow> jsstring \<Rightarrow> jsstring" where
  "replaceFirst pat rep [] = (if pat = [] then rep else [])"
| "replaceFirst pat rep (x # xs) =
     (if prefix pat (x # xs) then rep @ drop (length pat) (x # xs)
      else x # replaceFirst pat rep xs)"

definition scriptRx :: "item list" where
  "scriptRx = lit ''<script'' @ [WordB, Star True [NCls (\<lambda>c. c = 60)],
       Star True (NotAhead (lit ''</script>'') # Chr 60 # [Star True [NCls (\<lambda>c. c = 60)]])]
     @ lit ''</script>''"

definition javascriptRx :: "item list" where
  "javascriptRx = lit ''javascript:''"

definition onHandlerRx :: "item list" where
  "onHandlerRx = lit ''on'' @ plus True [Cls isWordChar] @ [Star True [Cls isWhiteSpace], Chr 61]"

definition dangerousPatterns :: "item list list" where
  "dangerousPatterns = [scriptRx, javascriptRx, onHandlerRx]"

definition sanitizeSearchQuery :: "json \<Rightarrow> js_error + jsstring" where
  "sanitizeSearchQuery query =
     (case sanitizeString query of
        Inl err \<Rightarrow> Inl err
      | Inr sanitized \<Rightarrow>
          if length sanitized < 1 then
            Inl (ValidationError (str ''Search query cannot be empty'') JUndefined)
          else if length sanitized > 200 then
            Inl (ValidationError (str ''Search query is too long (max 200 characters)'') JUndefined)
          else if list_ex (\<lambda>pattern. rxTest True pattern sanitized) dangerousPatterns then
            Inl (ValidationError (str ''Search query contains potentially dangerous content'')
                   JUndefined)
          else Inr sanitized)"

definition validPart :: "json \<Rightarrow> bool" where
  "validPart p =
     (case p of
        JObj kvs \<Rightarrow>
          (getProp p ''type'' = JStr (str ''text'') \<or> getProp p ''type'' = JStr (str ''file'')
             \<or> getProp p ''type'' = JStr (str ''data''))
          \<and> (case getProp p ''text'' of JUndefined \<Rightarrow> True | JStr s \<Rightarrow> True | _ \<Rightarrow> False)
      | _ \<Rightarrow> False)"

definition validTelexMessage :: "json \<Rightarrow> bool" where
  "validTelexMessage m =
     (case m of
        JObj kvs \<Rightarrow>
          (getProp m ''role'' = JStr (str ''user'') \<or> getProp m ''role'' = JStr (str ''assistant''))
          \<and> (case getProp m ''parts'' of
                JArr ps \<Rightarrow> length ps \<ge> 1 \<and> list_all validPart ps
              | _ \<Rightarrow> False)
      | _ \<Rightarrow> False)"

definition zodErrorData :: json where
  "zodErrorData = JObj [(str ''name'', JStr (str ''ZodError''))]"

definition extractSearchQuery :: "json \<Rightarrow> js_error + jsstring" where
  "extractSearchQuery msg =
     (case getProp msg ''parts'' of
        JArr ps \<Rightarrow>
          (case find (\<lambda>part. getProp part ''type'' = JStr (str ''text'')
                          \<and> truthy (getProp part ''text'')) ps of
             None \<Rightarrow> Inl (ValidationError (str ''Message must contain a text part with content'')
                          JUndefined)
           | Some textPart \<Rightarrow>
               (case getProp textPart ''text'' of
                  JStr messageText \<Rightarrow>
                    if length (trim messageText) = 0 then
                      Inl (ValidationError (str ''Message text cannot be empty'') JUndefined)
                    else
                      (case sanitizeString (JStr messageText) of
                         Inl err \<Rightarrow> Inl err
                       | Inr sanitizedText \<Rightarrow>
                           let searchQuery =
                             (if includesStr sanitizedText (str ''Find a book with: query:'')
                              then trim (replaceFirst (str ''Find a book with: query:'') []
                                           sanitizedText)
                              else trim sanitizedText)
                           in sanitizeSearchQuery (JStr searchQuery))
                | _ \<Rightarrow> Inl (ValidationError (str ''Failed to extract search query from message'')
                           JUndefined)))
      | _ \<Rightarrow> Inl (ValidationError (str ''Message parts must be a non-empty array'') JUndefined))"

definition textMessage :: "string \<Rightarrow> jsstring \<Rightarrow> json" where
  "textMessage role txt =
     JObj [(str ''role'', JStr (str role)),
           (str ''parts'', JArr [JObj [(str ''type'', JStr (str ''text'')),
                                       (str ''text'', JStr txt)]])]"

definition suggestionLines :: "json list \<Rightarrow> jsstring" where
  "suggestionLines xs =
     concat (map (\<lambda>(index, suggestion). showNat (index + 1) @ str ''. '' @ jsToString suggestion @ [10])
               (enumerate 0 xs))"

definition formatBookResponse :: "env \<Rightarrow> json \<Rightarrow> jsstring" where
  "formatBookResponse e result =
     (if result = JNull \<or> result = JUndefined then
        [10060] @ str '' Error: Failed to format book response''
      else if truthy (getProp result ''error'') then
        ([10060] @ str '' Error: '' @ jsToString (getProp result ''error''))
        @ (case getProp result ''suggestions'' of
             JArr xs \<Rightarrow> [10, 10, 55357, 56481] @ str '' Suggestions:'' @ [10] @ suggestionLines xs
           | _ \<Rightarrow> [])
        @ (if truthy (getProp result ''code'')
           then [10, 10] @ str ''Error Code: '' @ jsToString (getProp result ''code'') else [])
      else if \<not> truthy (getProp result ''title'') \<or> \<not> truthy (getProp result ''authors'')
              \<or> \<not> truthy (getProp result ''excerpt'') then
        [10060] @ str '' Error: Invalid book result format: missing required fields''
      else
        ([55357, 56538] @ str '' **'' @ jsToString (getProp result ''title'') @ str ''**'' @ [10, 10]
          @ str ''*By '' @ jsToString (getProp result ''authors'') @ str ''*'' @ [10, 10]
          @ jsToString (getProp result ''excerpt''))
        @ (if truthy (getProp result ''source'')
           then [10, 10] @ str ''*Source: '' @ jsToString (getProp result ''source'') @ str ''*''
           else [])
        @ (case getProp result ''downloadCount'' of
             JNum n \<Rightarrow> if n \<noteq> 0 then [10] @ str ''*Downloads: '' @ toLocaleString e n @ str ''*''
                       else []
           | _ \<Rightarrow> [])
        @ (case getProp result ''languages'' of
             JArr ls \<Rightarrow> if length ls > 0
                        then [10] @ str ''*Languages: '' @ joinArray (str '', '') ls @ str ''*''
                        else []
           | _ \<Rightarrow> [])
        @ (case getProp result ''subjects'' of
             JArr ss \<Rightarrow> if length ss > 0
                        then [10] @ str ''*Topics: '' @ joinArray (str '', '') (take 5 ss)
                               @ (if length ss > 5 then str ''...'' else []) @ str ''*''
                        else []
           | _ \<Rightarrow> [])
        @ [10, 10] @ str ''*Excerpt from Project Gutenberg - Public Domain*'')"

definition createTask :: "env \<Rightarrow> jsstring \<Rightarrow> json \<Rightarrow> json \<Rightarrow> js_error + task" where
  "createTask e searchQuery msg sessionIdParam =
     (if searchQuery = [] then
        Inl (ValidationError (str ''Search query is required and must be a string'') JUndefined)
      else if \<not> truthy msg \<or> \<not> truthy (getProp msg ''parts'') \<or> \<not> isArray (getProp msg ''parts'')
      then Inl (ValidationError (str ''Invalid message structure'') JUndefined)
      else
        let ts = nowMs e;
            taskId = str ''task_'' @ showNat ts @ str ''_'' @ randomSuffix e
        in case (if truthy sessionIdParam then
                   (case sanitizeString sessionIdParam of
                      Inl err \<Rightarrow> Inl err
                    | Inr validSessionId \<Rightarrow>
                        if validSessionId = []
                        then Inl (ValidationError (str ''Invalid session ID'') JUndefined)
                        else Inr validSessionId)
                 else Inr []) of
             Inl err \<Rightarrow> Inl err
           | Inr validSessionId \<Rightarrow>
              (case sanitizeString (JStr searchQuery) of
                 Inl err \<Rightarrow> Inl err
               | Inr sanitizedQuery \<Rightarrow>
                   Inr \<lparr>task_id = taskId,
                        status = \<lparr>state = Working, timestamp = nowIso e,
                                  message = JObj [(str ''role'', JStr (str ''user'')),
                                                  (str ''parts'', getProp msg ''parts'')]\<rparr>,
                        artifacts = [],
                        history = [\<lparr>h_timestamp = nowIso e, event = str ''task_created'',
                                    h_data = JObj [(str ''searchQuery'', JStr sanitizedQuery),
                                      (str ''userAgent'', JStr (str ''A2A-Book-Agent/1.0.0''))]\<rparr>],
                        sessionId = (if validSessionId \<noteq> [] then validSessionId
                                     else str ''session_'' @ showNat ts),
                        pushNotificationConfig = None\<rparr>))"

definition completeTask :: "env \<Rightarrow> task \<Rightarrow> json \<Rightarrow> task_store \<Rightarrow> task \<times> task_store" where
  "completeTask e task result store =
     (let task = task\<lparr>status := \<lparr>state = Completed, timestamp = nowIso e,
                    message = textMessage ''assistant'' (formatBookResponse e result)\<rparr>\<rparr>;
          task = task\<lparr>artifacts := [\<lparr>a_type = str ''book_excerpt'', a_name = str ''Book Excerpt'',
                    a_data = result, a_timestamp = nowIso e\<rparr>]\<rparr>;
          task = task\<lparr>history := history task @
                    [\<lparr>h_timestamp = nowIso e, event = str ''task_completed'',
                      h_data = JObj [(str ''result'', result)]\<rparr>]\<rparr>
      in (task, store(task_id task \<mapsto> task)))"

fun isExternalAPIError :: "js_error \<Rightarrow> bool" where
  "isExternalAPIError (ExternalAPIError m s c) = True"
| "isExternalAPIError err = False"

fun errorService :: "js_error \<Rightarrow> jsstring" where
  "errorService (ExternalAPIError m s c) = s"
| "errorService err = []"

fun errorCode :: "js_error \<Rightarrow> jsstring" where
  "errorCode (ExternalAPIError m s c) = c"
| "errorCode (ValidationError m d) = str ''VALIDATION_ERROR''"
| "errorCode err = []"


section \<open>Handling message/stream\<close>

text \<open>
  The response object is the state of the stream: whether the head was written, the
  frames written so far, and whether the stream was ended.
\<close>

datatype stream_payload =
    TaskStarted task jsstring
  | Progress jsstring jsstring jsstring jsstring
  | TaskCompleted task jsstring
  | MessageResponse jsstring json "int option"
  | StreamComplete jsstring jsstring

datatype frame =
    ResultFrame stream_payload json
  | ResponseFrame response

record res_state =
  headWritten :: bool
  frames :: "frame list"
  ended :: bool

definition sendStreamData :: "res_state \<Rightarrow> frame \<Rightarrow> res_state" where
  "sendStreamData res fr = res\<lparr>frames := frames res @ [fr]\<rparr>"

definition sendStreamError :: "res_state \<Rightarrow> json \<Rightarrow> int \<Rightarrow> jsstring \<Rightarrow> json \<Rightarrow> res_state" where
  "sendStreamError res ident code msg dat =
     sendStreamData res (ResponseFrame (createErrorResponse code msg ident dat))"

fun errorAsJson :: "js_error \<Rightarrow> json" where
  "errorAsJson (ValidationError m d) =
     JObj [(str ''statusCode'', JNum 400), (str ''code'', JStr (str ''VALIDATION_ERROR'')),
           (str ''details'', d), (str ''name'', JStr (str ''ValidationError''))]"
| "errorAsJson (ExternalAPIError m s c) =
     JObj [(str ''statusCode'', JNum 502), (str ''code'', JStr c), (str ''service'', JStr s),
           (str ''name'', JStr (str ''ExternalAPIError''))]"
| "errorAsJson (OtherError m) = JObj []"
| "errorAsJson ZodError = zodErrorData"

definition streamCatch ::
  "env \<Rightarrow> json \<Rightarrow> task option \<Rightarrow> js_error \<Rightarrow> task_store \<Rightarrow> res_state \<Rightarrow> task_store \<times> res_state" where
  "streamCatch e ident created error store res =
     (let store =
        (case created of
           None \<Rightarrow> store
         | Some task \<Rightarrow>
             let task = task\<lparr>status := \<lparr>state = Canceled, timestamp = nowIso e,
                   message = textMessage ''assistant'' (str ''Error: '' @ errorMessage error)\<rparr>\<rparr>
             in store(task_id task \<mapsto> task));
          res = sendStreamError res ident (- 32603)
                  (str ''Internal error during message streaming'') (errorAsJson error)
      in (store, res\<lparr>ended := True\<rparr>))"

definition handleMessageStream ::
  "env \<Rightarrow> json \<Rightarrow> json \<Rightarrow> task_store \<Rightarrow> res_state \<Rightarrow> task_store \<times> res_state" where
  "handleMessageStream e params ident store res =
     (if \<not> truthy params \<or> \<not> truthy (getProp params ''message'') then
        (store, sendStreamError res ident (- 32602) (str ''Invalid params: message is required'')
                  JUndefined)
      else if \<not> validTelexMessage (getProp params ''message'') then
        (store, sendStreamError res ident (- 32602) (str ''Invalid message structure'')
                  zodErrorData)
      else
        let res = res\<lparr>headWritten := True\<rparr>
        in case extractSearchQuery (getProp params ''message'') of
          Inl error \<Rightarrow>
            (store, sendStreamError res ident (- 32602) (str ''Could not extract search query'')
                      (errorAsJson error))
        | Inr searchQuery \<Rightarrow>
           (case createTask e searchQuery (getProp params ''message'')
                   (getProp params ''sessionId'') of
              Inl error \<Rightarrow>
                (store, sendStreamError res ident (- 32602) (str ''Failed to create task'')
                          (errorAsJson error))
            | Inr task \<Rightarrow>
               let store = store(task_id task \<mapsto> task);
                   res = sendStreamData res (ResultFrame (TaskStarted task (nowIso e)) ident)
               in case loggerInfoThrows e of
                    Some error \<Rightarrow> streamCatch e ident (Some task) error store res
                  | None \<Rightarrow>
                     let res = sendStreamData res
                           (ResultFrame (Progress (task_id task) (str ''searching'')
                              (str ''Searching for books...'') (nowIso e)) ident)
                     in case generate e (str ''Find a book with: query: '' @ searchQuery) of
                          Inl error \<Rightarrow>
                            if errorMessage error = str ''Request timeout'' then
                              (store, sendStreamError res ident (- 32603)
                                 (str ''Book extraction request timed out'')
                                 (JObj [(str ''timeout'', JNum 30000)]))
                            else if isExternalAPIError error then
                              (store, sendStreamError res ident (- 32603)
                                 (str ''External API error: '' @ errorMessage error)
                                 (JObj [(str ''service'', JStr (errorService error)),
                                        (str ''code'', JStr (errorCode error))]))
                            else
                              (store, sendStreamError res ident (- 32603)
                                 (str ''Error during book extraction'') (errorAsJson error))
                        | Inr result \<Rightarrow>
                            let res = sendStreamData res
                                  (ResultFrame (Progress (task_id task) (str ''processing'')
                                     (str ''Processing book content...'') (nowIso e)) ident);
                                (task, store) = completeTask e task result store;
                                res = sendStreamData res
                                  (ResultFrame (TaskCompleted task (nowIso e)) ident);
                                res = sendStreamData res
                                  (ResultFrame (MessageResponse (task_id task)
                                     (message (status task)) (taskAge e task)) ident);
                                res = sendStreamData res
                                  (ResultFrame (StreamComplete (task_id task) (nowIso e)) ident)
                            in (store, res\<lparr>ended := True\<rparr>)))"

definition exampleMessage :: json where
  "exampleMessage = textMessage ''user'' (str ''Sherlock Holmes'')"

definition newRes :: res_state where
  "newRes = \<lparr>headWritten = False, frames = [], ended = False\<rparr>"

section \<open>Observations on the store\<close>

definition storedState :: "task_store \<Rightarrow> jsstring \<Rightarrow> task_state option" where
  "storedState store tid = map_option (\<lambda>t. state (status t)) (store tid)"



definition exampleParams :: json where
  "exampleParams = JObj [(str ''message'', exampleMessage)]"

definition exampleNewId :: jsstring where
  "exampleNewId = str ''task_'' @ showNat (nowMs exampleEnv) @ str ''_'' @ randomSuffix exampleEnv"

fun isErrorFrame :: "frame \<Rightarrow> bool" where
  "isErrorFrame (ResponseFrame (RpcError c m d i)) = True"
| "isErrorFrame fr = False"

section \<open>Facts about the matcher\<close>

lemma ms_Star_Cls_Nil: "ms ic (Star greedy [Cls A] # r) p [] = ms ic r p []"
  by (simp add: ms.simps(9) Let_def)

lemma ms_Star_Cls_Cons:
  "ms ic (Star greedy [Cls A] # r) p (x # xs) =
     (let again = (if clsMatches ic A x then ms ic (Star greedy [Cls A] # r) (Some x) xs else []);
          leave = ms ic r p (x # xs)
      in if greedy then again @ leave else leave @ again)"
  by (simp add: ms.simps(9) [of ic greedy "[Cls A]" r p "x # xs"])

lemma firstMatch_None_iff: "firstMatch ic rx p s = None \<longleftrightarrow> ms ic rx p s = []"
  by (simp add: firstMatch_def split: list.splits)

lemma rxSearch_Bol_later: "rxSearch ic (Bol # r) (Some c) s = False"
  by (induction s arbitrary: c) (simp_all add: firstMatch_def)


section \<open>Retries of the catalog search\<close>

lemma attempts_append: "attempts (a @ b) = attempts a + attempts b"
  by (induction a rule: attempts.induct) auto

lemma delays_append: "delays (a @ b) = delays a @ delays b"
  by (induction a rule: delays.induct) auto

lemma searchLoop_all_fail:
  assumes "\<forall>k. attempt \<le> k \<and> k \<le> maxRetries \<longrightarrow> get target k = Inl (err k)"
    and "1 \<le> attempt" and "attempt \<le> maxRetries"
  shows "searchLoop get target maxRetries attempt tr =
           (Thrown (err maxRetries),
            tr @ concat (map (\<lambda>k. [HttpGet target, SetTimeout (2 ^ k * 1000)]) [attempt..<maxRetries])
               @ [HttpGet target])"
  using assms
proof (induction get target maxRetries attempt tr rule: searchLoop.induct)
  case (1 get target maxRetries attempt tr)
  have here: "get target attempt = Inl (err attempt)"
    using "1.prems" by simp
  show ?case
  proof (cases "attempt = maxRetries")
    case True
    then show ?thesis
      using here by (simp add: searchLoop.simps [of get target maxRetries maxRetries])
  next
    case False
    then have lt: "attempt < maxRetries"
      using "1.prems" by simp
    have step: "searchLoop get target maxRetries attempt tr =
          searchLoop get target maxRetries (attempt + 1)
            (tr @ [HttpGet target, SetTimeout (2 ^ attempt * 1000)])"
      using here lt False by (subst searchLoop.simps) (simp add: Let_def)
    have ih: "searchLoop get target maxRetries (attempt + 1)
            (tr @ [HttpGet target, SetTimeout (2 ^ attempt * 1000)]) =
          (Thrown (err maxRetries),
           (tr @ [HttpGet target, SetTimeout (2 ^ attempt * 1000)])
             @ concat (map (\<lambda>k. [HttpGet target, SetTimeout (2 ^ k * 1000)])
                 [attempt + 1..<maxRetries])
             @ [HttpGet target])"
      using "1.IH" [OF _ here False refl] "1.prems" lt by simp
    have unroll: "[attempt..<maxRetries] = attempt # [attempt + 1..<maxRetries]"
      using lt by (simp add: upt_conv_Cons)
    show ?thesis
      unfolding step ih unroll by simp
  qed
qed

lemma attempts_rounds:
  "attempts (concat (map (\<lambda>k. [HttpGet target, SetTimeout (f k)]) ks)) = length ks"
  by (induction ks) auto

lemma delays_rounds:
  "delays (concat (map (\<lambda>k. [HttpGet target, SetTimeout (f k)]) ks)) = map f ks"
  by (induction ks) auto

text \<open>
  Claim C7. When the query can be encoded and every attempt of a search fails, the helper
  sends exactly \<open>maxRetries\<close> requests, arms between attempt \<open>k\<close> and attempt \<open>k + 1\<close> a
  timer of \<open>2 ^ k\<close> seconds (attempts are numbered from 1, so the delays increase:
  2 s, 4 s, ...), and throws the error of the last attempt.
\<close>

theorem searchGutenbergBooks_retries:
  assumes "encodeURIComponent searchQuery = Inr encodedQuery"
    and "\<forall>k. 1 \<le> k \<and> k \<le> maxRetries \<longrightarrow> get target k = Inl (err k)"
    and "target = str ''https://gutendex.com/books?search='' @ encodedQuery"
    and "1 \<le> maxRetries"
    and "searchGutenbergBooks encodeURIComponent get searchQuery maxRetries = (outcome, tr)"
  shows "outcome = Thrown (err maxRetries)
       \<and> attempts tr = maxRetries
       \<and> delays tr = map (\<lambda>k. 2 ^ k * 1000) [1..<maxRetries]
       \<and> sorted_wrt (<) (delays tr)"
proof -
  have target: "str ''https://gutendex.com/books'' @ str ''?search='' @ encodedQuery = target"
    using assms(3) by (simp add: str_def)
  have run: "searchGutenbergBooks encodeURIComponent get searchQuery maxRetries =
      searchLoop get target maxRetries 1 []"
    using assms(1) target by (simp add: searchGutenbergBooks_def Let_def)
  have res: "searchLoop get target maxRetries 1 [] =
      (Thrown (err maxRetries),
       [] @ concat (map (\<lambda>k. [HttpGet target, SetTimeout (2 ^ k * 1000)]) [1..<maxRetries])
          @ [HttpGet target])"
    using assms(2,4) by (intro searchLoop_all_fail) auto
  have o: "outcome = Thrown (err maxRetries)"
    and t: "tr = concat (map (\<lambda>k. [HttpGet target, SetTimeout (2 ^ k * 1000)]) [1..<maxRetries])
          @ [HttpGet target]"
    using assms(5) run res by simp_all
  have a: "attempts tr = maxRetries"
    using assms(4) by (simp add: t attempts_append attempts_rounds)
  have d: "delays tr = map (\<lambda>k. 2 ^ k * 1000) [1..<maxRetries]"
    by (simp add: t delays_append delays_rounds)
  have "sorted_wrt (<) (map (\<lambda>k. (2::nat) ^ k * 1000) [1..<maxRetries])"
    by (simp add: sorted_wrt_map sorted_wrt_iff_nth_less)
  with o a d show ?thesis by simp
qed

text \<open>
  The default of three retries against a catalog that always fails: three requests,
  delays of 2000 ms and 4000 ms, and the third error thrown.
\<close>

theorem searchGutenbergBooks_retries_witness:
  "searchGutenbergBooks (\<lambda>q. Inr q) (\<lambda>u k. (Inl (k + 100) :: nat + unit)) (str ''a'')
       defaultMaxRetries
     = (Thrown 103,
        [HttpGet (str ''https://gutendex.com/books?search=a''), SetTimeout 2000,
         HttpGet (str ''https://gutendex.com/books?search=a''), SetTimeout 4000,
         HttpGet (str ''https://gutendex.com/books?search=a'')])
   \<and> attempts (snd (searchGutenbergBooks (\<lambda>q. Inr q) (\<lambda>u k. (Inl (k + 100) :: nat + unit))
         (str ''a'') defaultMaxRetries)) = 3
   \<and> delays (snd (searchGutenbergBooks (\<lambda>q. Inr q) (\<lambda>u k. (Inl (k + 100) :: nat + unit))
         (str ''a'') defaultMaxRetries)) = [2000, 4000]"
proof -
  obtain outcome tr where run:
    "searchGutenbergBooks (\<lambda>q. Inr q) (\<lambda>u k. (Inl (k + 100) :: nat + unit)) (str ''a'')
       defaultMaxRetries = (outcome, tr)"
    by (cases "searchGutenbergBooks (\<lambda>q. Inr q) (\<lambda>u k. (Inl (k + 100) :: nat + unit))
       (str ''a'') defaultMaxRetries") blast
  have enc: "(\<lambda>q. Inr q :: nat + jsstring) (str ''a'') = Inr (str ''a'')"
    by simp
  have fails: "\<forall>k. 1 \<le> k \<and> k \<le> defaultMaxRetries \<longrightarrow>
      (\<lambda>u k. (Inl (k + 100) :: nat + unit))
        (str ''https://gutendex.com/books?search='' @ str ''a'') k = Inl ((\<lambda>k. k + 100) k)"
    by simp
  have pos: "1 \<le> defaultMaxRetries"
    by (simp add: defaultMaxRetries_def)
  note fact = searchGutenbergBooks_retries [OF enc fails refl pos run]
  have three: "[1..<defaultMaxRetries] = [1, 2]"
    by (simp add: defaultMaxRetries_def upt_conv_Cons)
  have tr: "tr = [HttpGet (str ''https://gutendex.com/books?search=a''), SetTimeout 2000,
         HttpGet (str ''https://gutendex.com/books?search=a''), SetTimeout 4000,
         HttpGet (str ''https://gutendex.com/books?search=a'')]"
    using run
    by (simp add: searchGutenbergBooks_def Let_def defaultMaxRetries_def str_def
        searchLoop.simps [of _ _ 3])
  show ?thesis
    using fact tr unfolding run three by (simp add: defaultMaxRetries_def)
qed

section \<open>Matches of the boilerplate expressions\<close>

lemma firstOf_simps [simp]:
  "firstOf [] = None" "firstOf (r # rs) = Some (snd r)"
  by (simp_all add: firstOf_def)

lemma firstOf_append: "firstOf (a @ b) = (case firstOf a of None \<Rightarrow> firstOf b | Some r \<Rightarrow> Some r)"
  by (cases a) simp_all

lemma firstOf_None_iff: "firstOf rs = None \<longleftrightarrow> rs = []"
  by (cases rs) simp_all

lemma firstMatch_firstOf: "map_option snd (firstMatch ic rx p s) = firstOf (ms ic rx p s)"
  by (simp add: firstMatch_def firstOf_def split: list.splits)

lemma ms_lit:
  "ms ic (map Chr w @ r) p s =
     (if litPrefix ic w s
      then ms ic r (if w = [] then p else Some (s ! (length w - 1))) (drop (length w) s)
      else [])"
proof (induction w arbitrary: p s)
  case Nil
  show ?case by simp
next
  case (Cons a w)
  show ?case
  proof (cases s)
    case Nil
    then show ?thesis by simp
  next
    case (Cons x xs)
    show ?thesis
      unfolding Cons using Cons.IH [of "Some x" xs]
      by (cases w) auto
  qed
qed

lemma litPrefix_length: "litPrefix ic w s \<Longrightarrow> length w \<le> length s"
  by (induction ic w s rule: litPrefix.induct) auto

lemma litPrefix_append_stop:
  assumes "\<forall>a \<in> set w. \<not> chrMatches ic a c"
  shows "litPrefix ic w (l @ c # r) = litPrefix ic w l"
  using assms
proof (induction ic w l rule: litPrefix.induct)
  case (2 ic a w)
  then show ?case by simp
qed auto

lemma litPrefix_append: "litPrefix ic w l \<Longrightarrow> litPrefix ic w (l @ r)"
  by (induction ic w l rule: litPrefix.induct) auto

lemma clsMatches_caseClosed: "caseClosed A \<Longrightarrow> clsMatches ic A x = A x"
  by (auto simp: clsMatches_def caseClosed_def)

lemma caseClosed_isCrLf: "caseClosed isCrLf"
  by (auto simp: caseClosed_def isCrLf_def swapCase_def isLower_def isUpper_def split: if_splits)

lemma caseClosed_notLT: "caseClosed (\<lambda>c. \<not> isLineTerminator c)"
  by (auto simp: caseClosed_def isLineTerminator_def swapCase_def isLower_def isUpper_def
      split: if_splits)

lemma firstOf_greedy_star_end:
  assumes "caseClosed A"
  shows "firstOf (ms ic [Star True [Cls A]] p s) = Some (dropWhile A s)"
proof (induction s arbitrary: p)
  case Nil
  show ?case by (simp add: ms_Star_Cls_Nil)
next
  case (Cons x xs)
  show ?case
    using Cons.IH [of "Some x"]
    by (simp add: ms_Star_Cls_Cons clsMatches_caseClosed [OF assms] firstOf_append Let_def)
qed

lemma isCrLf_LT: "isCrLf c \<Longrightarrow> isLineTerminator c"
  by (auto simp: isCrLf_def isLineTerminator_def)

lemma firstOf_lineEnd:
  "firstOf (ms ic [Star False [dot], Cls isCrLf, Star True [Cls isCrLf]] p s) = lineEnd s"
proof (induction s arbitrary: p)
  case Nil
  show ?case by (simp add: dot_def ms_Star_Cls_Nil)
next
  case (Cons x xs)
  have leave: "firstOf (ms ic [Cls isCrLf, Star True [Cls isCrLf]] p (x # xs))
      = (if isCrLf x then Some (dropWhile isCrLf xs) else None)"
    by (simp add: clsMatches_caseClosed [OF caseClosed_isCrLf]
        firstOf_greedy_star_end [OF caseClosed_isCrLf])
  show ?case
    using Cons.IH [of "Some x"] leave
    unfolding dot_def
    by (simp add: ms_Star_Cls_Cons Let_def firstOf_append
        clsMatches_caseClosed [OF caseClosed_notLT] isCrLf_LT del: ms.simps)
qed

lemma firstOf_textEnd: "firstOf (ms ic [Star True [dot], Eol] p s) = textEnd s"
proof (induction s arbitrary: p)
  case Nil
  show ?case by (simp add: dot_def ms_Star_Cls_Nil textEnd_def)
next
  case (Cons x xs)
  show ?case
    using Cons.IH [of "Some x"]
    unfolding dot_def
    by (simp add: ms_Star_Cls_Cons Let_def firstOf_append textEnd_def
        clsMatches_caseClosed [OF caseClosed_notLT])
qed

lemma firstOf_lazyFind:
  assumes "\<And>p s. firstOf (ms True r p s) = k s"
  shows "firstOf (ms True (Star False [dot] # (map Chr w @ r)) p s) = lazyFind w k s"
proof (induction s arbitrary: p)
  case Nil
  show ?case
    by (simp add: dot_def ms_Star_Cls_Nil ms_lit assms del: ms.simps)
next
  case (Cons x xs)
  have leave: "firstOf (ms True (map Chr w @ r) p (x # xs))
      = (if litPrefix True w (x # xs) then k (drop (length w) (x # xs)) else None)"
    by (simp add: ms_lit assms del: ms.simps)
  show ?case
    using Cons.IH [of "Some x"]
    unfolding dot_def
    by (simp add: ms_Star_Cls_Cons Let_def firstOf_append leave
        clsMatches_caseClosed [OF caseClosed_notLT] del: ms.simps litPrefix.simps
        split: option.splits)
qed

lemma rxReplaceFrom_deleteMatches:
  assumes "\<And>p s. firstOf (ms ic rx p s) = f s"
  shows "rxReplaceFrom ic rx [] p s = deleteMatches f s"
proof (induction s arbitrary: p rule: length_induct)
  case (1 s)
  have fm: "map_option snd (firstMatch ic rx p s) = f s"
    using assms by (simp add: firstMatch_firstOf)
  show ?case
  proof (cases "firstMatch ic rx p s")
    case None
    then have "f s = None" using fm by simp
    then show ?thesis
      using None 1
      by (subst rxReplaceFrom.simps, subst deleteMatches.simps) (simp split: list.splits)
  next
    case (Some m)
    obtain p' s' where m: "m = (p', s')" by (cases m)
    have "f s = Some s'" using fm Some m by simp
    then show ?thesis
      using Some m 1
      by (subst rxReplaceFrom.simps, subst deleteMatches.simps) (simp split: list.splits)
  qed
qed

lemma deleteMatches_skip:
  "f (x # xs) = None \<Longrightarrow> deleteMatches f (x # xs) = x # deleteMatches f xs"
  by (subst deleteMatches.simps) simp

lemma deleteMatches_take:
  "f s = Some r \<Longrightarrow> length r < length s \<Longrightarrow> deleteMatches f s = deleteMatches f r"
  by (subst deleteMatches.simps) simp

lemma deleteMatches_Nil: "f [] = None \<Longrightarrow> deleteMatches f [] = []"
  by (subst deleteMatches.simps) simp

lemma plainLit_no_LT:
  assumes "plainLit w" and "isLineTerminator c"
  shows "\<forall>a \<in> set w. \<not> chrMatches True a c"
proof -
  have "canonicalize c = c"
    using assms(2) by (auto simp: canonicalize_def isLineTerminator_def isLower_def)
  then show ?thesis
    using assms by (auto simp: plainLit_def chrMatches_def)
qed

lemma plainLit_not_at_LT:
  assumes "plainLit w" and "isLineTerminator c"
  shows "\<not> litPrefix True w (c # r)"
proof -
  obtain a w' where w: "w = a # w'"
    using assms(1) by (cases w) (auto simp: plainLit_def)
  show ?thesis
    using plainLit_no_LT [OF assms] unfolding w by simp
qed

lemma lineEnd_line:
  assumes "lineShape l brk rest"
  shows "lineEnd (l @ brk @ rest) = Some rest"
  using assms
proof (induction l)
  case Nil
  then obtain c cs where brk: "brk = c # cs" and c: "isCrLf c" and cs: "\<forall>c \<in> set cs. isCrLf c"
    by (cases brk) (auto simp: lineShape_def)
  have "dropWhile isCrLf (cs @ rest) = dropWhile isCrLf rest"
    using cs by (simp add: dropWhile_append)
  also have "\<dots> = rest"
    using Nil by (auto simp: lineShape_def dropWhile_eq_self_iff)
  finally show ?case
    using c by (simp add: brk)
next
  case (Cons x l)
  then have "\<not> isLineTerminator x" and "lineShape l brk rest"
    by (auto simp: lineShape_def)
  then show ?case
    using Cons.IH isCrLf_LT [of x] by auto
qed

lemma lineShape_drop: "lineShape l brk rest \<Longrightarrow> lineShape (drop n l) brk rest"
  by (auto simp: lineShape_def dest: in_set_dropD)

lemma headerMatch_present:
  assumes "plainLit w" and "lineShape l brk rest" and "containsLit True w l"
  shows "lazyFind w lineEnd (l @ brk @ rest) = Some rest"
  using assms(2,3)
proof (induction l)
  case Nil
  then show ?case
    using assms(1) by (cases w) (auto simp: plainLit_def)
next
  case (Cons x l)
  obtain c cs where brk: "brk = c # cs" and c: "isCrLf c"
    using Cons.prems(1) by (cases brk) (auto simp: lineShape_def)
  have stop: "litPrefix True w ((x # l) @ brk @ rest) = litPrefix True w (x # l)"
    unfolding brk
    using litPrefix_append_stop [OF plainLit_no_LT [OF assms(1) isCrLf_LT [OF c]],
        of "x # l" "cs @ rest"]
    by (simp del: litPrefix.simps)
  have x: "\<not> isLineTerminator x" and l: "lineShape l brk rest"
    using Cons.prems(1) by (auto simp: lineShape_def)
  show ?case
  proof (cases "litPrefix True w (x # l)")
    case True
    then have len: "length w \<le> length (x # l)"
      by (rule litPrefix_length)
    have "drop (length w) ((x # l) @ brk @ rest)
        = drop (length w) (x # l) @ drop (length w - length (x # l)) (brk @ rest)"
      by (rule drop_append)
    moreover have "length w - length (x # l) = 0"
      using len by simp
    ultimately have "drop (length w) ((x # l) @ brk @ rest) = drop (length w) (x # l) @ brk @ rest"
      by (simp del: drop_Cons' drop.simps append_Cons)
    then have "lineEnd (drop (length w) ((x # l) @ brk @ rest)) = Some rest"
      using lineEnd_line [OF lineShape_drop [OF Cons.prems(1), of "length w"]] by simp
    then show ?thesis
      using True stop by (simp del: litPrefix.simps)
  next
    case False
    then have "containsLit True w l"
      using Cons.prems(2) by simp
    then have "lazyFind w lineEnd (l @ brk @ rest) = Some rest"
      using Cons.IH l by simp
    then show ?thesis
      using False stop x by (simp del: litPrefix.simps split: option.splits)
  qed
qed

lemma headerMatch_at_break:
  assumes "plainLit w" and "isLineTerminator c"
  shows "lazyFind w lineEnd (c # r) = None"
  using plainLit_not_at_LT [OF assms] assms(2) by (simp del: litPrefix.simps)

lemma headerMatch_absent:
  assumes "plainLit w" and "lineShape l brk rest" and "\<not> containsLit True w l"
  shows "lazyFind w lineEnd (l @ brk @ rest) = None"
  using assms(2,3)
proof (induction l)
  case Nil
  then obtain c cs where brk: "brk = c # cs" and c: "isCrLf c"
    by (cases brk) (auto simp: lineShape_def)
  show ?case
    using headerMatch_at_break [OF assms(1) isCrLf_LT [OF c]] by (simp add: brk)
next
  case (Cons x l)
  obtain c cs where brk: "brk = c # cs" and c: "isCrLf c"
    using Cons.prems(1) by (cases brk) (auto simp: lineShape_def)
  have stop: "litPrefix True w ((x # l) @ brk @ rest) = litPrefix True w (x # l)"
    unfolding brk
    using litPrefix_append_stop [OF plainLit_no_LT [OF assms(1) isCrLf_LT [OF c]],
        of "x # l" "cs @ rest"]
    by (simp del: litPrefix.simps)
  have l: "lineShape l brk rest"
    using Cons.prems(1) by (auto simp: lineShape_def)
  have "\<not> litPrefix True w (x # l)" and "\<not> containsLit True w l"
    using Cons.prems(2) by simp_all
  then show ?case
    using Cons.IH [OF l] stop by (simp del: litPrefix.simps)
qed

lemma stripHeader_deleteMatches:
  "stripHeader s = deleteMatches (lazyFind (str ''Project Gutenberg'') lineEnd) s"
proof -
  have rx: "headerRx = Star False [dot] #
      (map Chr (str ''Project Gutenberg'') @ [Star False [dot], Cls isCrLf, Star True [Cls isCrLf]])"
    by (simp add: headerRx_def lit_def plus_def)
  show ?thesis
    unfolding stripHeader_def rxReplaceAll_def rx
    by (rule rxReplaceFrom_deleteMatches) (rule firstOf_lazyFind, rule firstOf_lineEnd)
qed

lemma plainLit_marker: "plainLit (str ''Project Gutenberg'')"
  by (simp add: plainLit_def str_def canonicalize_def isLower_def isLineTerminator_def)

lemma deleteMatches_header_break:
  assumes "plainLit w" and "\<forall>c \<in> set brk. isCrLf c"
  shows "deleteMatches (lazyFind w lineEnd) (brk @ rest) = brk @ deleteMatches (lazyFind w lineEnd) rest"
  using assms(2)
proof (induction brk)
  case Nil
  show ?case by simp
next
  case (Cons c brk)
  then have "isLineTerminator c"
    by (simp add: isCrLf_LT)
  then show ?case
    using Cons deleteMatches_skip [where f = "lazyFind w lineEnd" and x = c and xs = "brk @ rest",
        OF headerMatch_at_break [OF assms(1)]]
    by simp
qed

lemma deleteMatches_header_removed:
  assumes "plainLit w" and "lineShape l brk rest" and "containsLit True w l"
  shows "deleteMatches (lazyFind w lineEnd) (l @ brk @ rest) = deleteMatches (lazyFind w lineEnd) rest"
proof -
  have "brk \<noteq> []"
    using assms(2) by (simp add: lineShape_def)
  then have "length rest < length (l @ brk @ rest)"
    by simp
  then show ?thesis
    using deleteMatches_take [where f = "lazyFind w lineEnd", OF headerMatch_present [OF assms]]
    by blast
qed

lemma deleteMatches_header_kept:
  assumes "plainLit w" and "lineShape l brk rest" and "\<not> containsLit True w l"
  shows "deleteMatches (lazyFind w lineEnd) (l @ brk @ rest)
         = l @ brk @ deleteMatches (lazyFind w lineEnd) rest"
  using assms(2,3)
proof (induction l)
  case Nil
  then show ?case
    using deleteMatches_header_break [OF assms(1)] by (simp add: lineShape_def)
next
  case (Cons x l)
  have l: "lineShape l brk rest" and n: "\<not> containsLit True w l"
    using Cons.prems by (auto simp: lineShape_def)
  have "lazyFind w lineEnd (x # l @ brk @ rest) = None"
    using headerMatch_absent [OF assms(1) Cons.prems] by simp
  then show ?case
    using Cons.IH [OF l n] by (simp add: deleteMatches_skip)
qed

lemma lineEnd_no_break: "\<forall>c \<in> set t. \<not> isCrLf c \<Longrightarrow> lineEnd t = None"
  by (induction t) auto

lemma headerMatch_no_break: "\<forall>c \<in> set t. \<not> isCrLf c \<Longrightarrow> lazyFind w lineEnd t = None"
proof (induction t)
  case Nil
  show ?case by simp
next
  case (Cons x t)
  have "lineEnd (drop (length w) (x # t)) = None"
  proof (rule lineEnd_no_break, rule ballI)
    fix c assume "c \<in> set (drop (length w) (x # t))"
    then have "c \<in> set (x # t)" by (rule in_set_dropD)
    then show "\<not> isCrLf c" using Cons.prems by blast
  qed
  then show ?case
    using Cons by (simp del: litPrefix.simps drop.simps drop_Cons')
qed

lemma deleteMatches_header_last_line:
  assumes "\<forall>c \<in> set t. \<not> isCrLf c"
  shows "deleteMatches (lazyFind w lineEnd) t = t"
  using assms
proof (induction t)
  case Nil
  show ?case by (simp add: deleteMatches_Nil)
next
  case (Cons x t)
  then show ?case
    using deleteMatches_skip [where f = "lazyFind w lineEnd", OF headerMatch_no_break [OF Cons.prems]]
    by simp
qed

lemma lazyFind_at_break:
  assumes "plainLit w" and "isLineTerminator c"
  shows "lazyFind w k (c # r) = None"
  using plainLit_not_at_LT [OF assms] assms(2) by (simp del: litPrefix.simps)

lemma failsOnLT_textEnd: "failsOnLT textEnd"
  by (auto simp: failsOnLT_def textEnd_def list_all_iff)

lemma failsOnLT_lazyFind:
  assumes "plainLit w" and "failsOnLT k"
  shows "failsOnLT (lazyFind w k)"
  unfolding failsOnLT_def
proof (intro allI impI)
  fix t assume "\<exists>c \<in> set t. isLineTerminator c"
  then show "lazyFind w k t = None"
  proof (induction t)
    case Nil
    then show ?case by simp
  next
    case (Cons x t)
    show ?case
    proof (cases "isLineTerminator x")
      case True
      then show ?thesis by (rule lazyFind_at_break [OF assms(1)])
    next
      case False
      then have rest: "\<exists>c \<in> set t. isLineTerminator c"
        using Cons.prems by auto
      then obtain a c b where t: "t = a @ c # b" and c: "isLineTerminator c"
        by (meson split_list)
      have "k (drop (length w) (x # t)) = None" if "litPrefix True w (x # t)"
      proof -
        have "litPrefix True w ((x # a) @ c # b)"
          using that t by simp
        then have "litPrefix True w (x # a)"
          using litPrefix_append_stop [OF plainLit_no_LT [OF assms(1) c], of "x # a" b] by blast
        then have "length w \<le> length (x # a)"
          by (rule litPrefix_length)
        then have "drop (length w) (x # t) = drop (length w) (x # a) @ c # b"
          unfolding t using drop_append [of "length w" "x # a" "c # b"] by simp
        then have "\<exists>d \<in> set (drop (length w) (x # t)). isLineTerminator d"
          using c by auto
        then show ?thesis
          using assms(2) unfolding failsOnLT_def by blast
      qed
      then show ?thesis
        using Cons.IH [OF rest] False by (simp del: litPrefix.simps drop.simps drop_Cons')
    qed
  qed
qed

lemma firstOf_after_break_run:
  assumes "plainLit w" and "\<And>p s. firstOf (ms True r p s) = k s"
  shows "firstOf (ms True (Star True [Cls isCrLf] # Star False [dot] # (map Chr w @ r)) p s)
         = lazyFind w k (dropWhile isCrLf s)"
proof (induction s arbitrary: p)
  case Nil
  show ?case
    using firstOf_lazyFind [of r k w p "[]", OF assms(2)] by (simp add: ms_Star_Cls_Nil del: ms.simps)
next
  case (Cons x xs)
  have leave: "firstOf (ms True (Star False [dot] # (map Chr w @ r)) p (x # xs))
      = lazyFind w k (x # xs)"
    by (rule firstOf_lazyFind [OF assms(2)])
  have brk: "lazyFind w k (x # xs) = None" if "isCrLf x"
    using lazyFind_at_break [OF assms(1) isCrLf_LT [OF that]] .
  show ?case
    using Cons.IH [of "Some x"] brk
    by (simp add: ms_Star_Cls_Cons Let_def firstOf_append leave
        clsMatches_caseClosed [OF caseClosed_isCrLf] del: ms.simps lazyFind.simps
        split: option.splits)
qed

lemma firstOf_footer:
  assumes "plainLit w" and "\<And>p s. firstOf (ms True r p s) = k s"
  shows "firstOf (ms True (Cls isCrLf # Star True [Cls isCrLf] # Star False [dot] # (map Chr w @ r))
           p s) = afterBreak (lazyFind w k) s"
  using firstOf_after_break_run [OF assms]
  by (cases s) (simp_all add: afterBreak_def clsMatches_caseClosed [OF caseClosed_isCrLf]
      del: lazyFind.simps)

lemma lazyFind_found_iff:
  assumes "w \<noteq> []" and "\<forall>c \<in> set l. \<not> isLineTerminator c"
    and "\<And>t. \<forall>c \<in> set t. \<not> isLineTerminator c \<Longrightarrow> k t = (if P t then Some [] else None)"
  shows "lazyFind w k l = (if (\<exists>n \<le> length l. litPrefix True w (drop n l) \<and> P (drop (n + length w) l))
                           then Some [] else None)"
  using assms(2)
proof (induction l)
  case Nil
  show ?case
    using assms(1) by (cases w) simp_all
next
  case (Cons x l)
  have x: "\<not> isLineTerminator x" and l: "\<forall>c \<in> set l. \<not> isLineTerminator c"
    using Cons.prems by simp_all
  have d: "\<forall>c \<in> set (drop (length w) (x # l)). \<not> isLineTerminator c"
    using Cons.prems by (meson in_set_dropD)
  have here: "k (drop (length w) (x # l)) = (if P (drop (length w) (x # l)) then Some [] else None)"
    by (rule assms(3) [OF d])
  have split: "(\<exists>n \<le> length (x # l). litPrefix True w (drop n (x # l)) \<and> P (drop (n + length w) (x # l)))
      \<longleftrightarrow> (litPrefix True w (x # l) \<and> P (drop (length w) (x # l)))
          \<or> (\<exists>n \<le> length l. litPrefix True w (drop n l) \<and> P (drop (n + length w) l))"
    (is "?L \<longleftrightarrow> ?A \<or> ?B")
  proof
    assume ?L
    then obtain n where n: "n \<le> length (x # l)" "litPrefix True w (drop n (x # l))"
        "P (drop (n + length w) (x # l))" by blast
    show "?A \<or> ?B"
    proof (cases n)
      case 0
      then show ?thesis using n by simp
    next
      case (Suc m)
      then show ?thesis using n by auto
    qed
  next
    assume "?A \<or> ?B"
    then show ?L
    proof
      assume ?A
      then show ?L by (intro exI [of _ 0]) simp
    next
      assume ?B
      then obtain n where "n \<le> length l" "litPrefix True w (drop n l)" "P (drop (n + length w) l)"
        by blast
      then show ?L by (intro exI [of _ "Suc n"]) simp
    qed
  qed
  define B where "B \<longleftrightarrow> (\<exists>n \<le> length l. litPrefix True w (drop n l) \<and> P (drop (n + length w) l))"
  have ih: "lazyFind w k l = (if B then Some [] else None)"
    using Cons.IH [OF l] unfolding B_def .
  have "lazyFind w k (x # l)
      = (if (litPrefix True w (x # l) \<and> P (drop (length w) (x # l))) \<or> B then Some [] else None)"
    using ih x here by (simp del: litPrefix.simps drop.simps drop_Cons')
  then show ?case
    unfolding split B_def .
qed

lemma containsLit_drop:
  "containsLit True w l \<longleftrightarrow> (\<exists>n \<le> length l. litPrefix True w (drop n l))"
proof (induction l)
  case Nil
  show ?case by simp
next
  case (Cons x l)
  have "(\<exists>n \<le> length (x # l). litPrefix True w (drop n (x # l)))
      \<longleftrightarrow> litPrefix True w (x # l) \<or> (\<exists>n \<le> length l. litPrefix True w (drop n l))"
    (is "?L \<longleftrightarrow> ?A \<or> ?B")
  proof
    assume ?L
    then obtain n where n: "n \<le> length (x # l)" "litPrefix True w (drop n (x # l))" by blast
    show "?A \<or> ?B"
      using n by (cases n) auto
  next
    assume "?A \<or> ?B"
    then show ?L
    proof
      assume ?A then show ?L by (intro exI [of _ 0]) simp
    next
      assume ?B
      then obtain n where "n \<le> length l" "litPrefix True w (drop n l)" by blast
      then show ?L by (intro exI [of _ "Suc n"]) simp
    qed
  qed
  then show ?case
    using Cons.IH by (simp del: litPrefix.simps)
qed

lemma lazyFind_textEnd:
  assumes "w \<noteq> []" and "\<forall>c \<in> set l. \<not> isLineTerminator c"
  shows "lazyFind w textEnd l = (if containsLit True w l then Some [] else None)"
proof -
  have k: "textEnd t = (if True then Some [] else None)" if "\<forall>c \<in> set t. \<not> isLineTerminator c" for t
    using that by (simp add: textEnd_def list_all_iff)
  show ?thesis
    using lazyFind_found_iff [OF assms, of textEnd "\<lambda>t. True", OF k]
    by (simp add: containsLit_drop)
qed

lemma containsLit2_drop:
  "containsLit2 a b l \<longleftrightarrow>
     (\<exists>n \<le> length l. litPrefix True a (drop n l) \<and> containsLit True b (drop (n + length a) l))"
proof (induction l)
  case Nil
  show ?case by simp
next
  case (Cons x l)
  have "(\<exists>n \<le> length (x # l). litPrefix True a (drop n (x # l))
            \<and> containsLit True b (drop (n + length a) (x # l)))
      \<longleftrightarrow> (litPrefix True a (x # l) \<and> containsLit True b (drop (length a) (x # l)))
          \<or> (\<exists>n \<le> length l. litPrefix True a (drop n l) \<and> containsLit True b (drop (n + length a) l))"
    (is "?L \<longleftrightarrow> ?A \<or> ?B")
  proof
    assume ?L
    then obtain n where n: "n \<le> length (x # l)" "litPrefix True a (drop n (x # l))"
      "containsLit True b (drop (n + length a) (x # l))" by blast
    show "?A \<or> ?B"
      using n by (cases n) auto
  next
    assume "?A \<or> ?B"
    then show ?L
    proof
      assume ?A then show ?L by (intro exI [of _ 0]) simp
    next
      assume ?B
      then obtain n where "n \<le> length l" "litPrefix True a (drop n l)"
        "containsLit True b (drop (n + length a) l)" by blast
      then show ?L by (intro exI [of _ "Suc n"]) simp
    qed
  qed
  then show ?case
    using Cons.IH by (simp del: litPrefix.simps containsLit.simps drop.simps drop_Cons')
qed

lemma lazyFind2_textEnd:
  assumes "a \<noteq> []" and "b \<noteq> []" and "\<forall>c \<in> set l. \<not> isLineTerminator c"
  shows "lazyFind a (lazyFind b textEnd) l = (if containsLit2 a b l then Some [] else None)"
  using lazyFind_found_iff [OF assms(1,3), of "lazyFind b textEnd" "containsLit True b",
      OF lazyFind_textEnd [OF assms(2)]]
  by (simp add: containsLit2_drop)

lemma deleteMatches_footer:
  assumes "plainLit w" and "failsOnLT k" and "footShape body brk lastLine"
    and "lazyFind w k lastLine = Some []"
  shows "deleteMatches (afterBreak (lazyFind w k)) (body @ brk @ lastLine) = body"
  using assms(3)
proof (induction body)
  case Nil
  then obtain c cs where brk: "brk = c # cs" and c: "isCrLf c" and cs: "\<forall>c \<in> set cs. isCrLf c"
    and ll: "\<forall>c \<in> set lastLine. \<not> isLineTerminator c"
    by (cases brk) (auto simp: footShape_def)
  have "\<forall>c \<in> set lastLine. \<not> isCrLf c"
    using ll isCrLf_LT by blast
  then have "dropWhile isCrLf lastLine = lastLine"
    by (cases lastLine) simp_all
  then have "dropWhile isCrLf (cs @ lastLine) = lastLine"
    using cs by (simp add: dropWhile_append)
  then have m: "afterBreak (lazyFind w k) (c # cs @ lastLine) = Some []"
    using c assms(4) by (simp add: afterBreak_def)
  have e: "afterBreak (lazyFind w k) [] = None"
    by (simp add: afterBreak_def)
  have "deleteMatches (afterBreak (lazyFind w k)) (c # cs @ lastLine)
      = deleteMatches (afterBreak (lazyFind w k)) []"
    by (rule deleteMatches_take [where f = "afterBreak (lazyFind w k)", OF m]) simp
  then show ?case
    using deleteMatches_Nil [where f = "afterBreak (lazyFind w k)", OF e] by (simp add: brk)
next
  case (Cons x body)
  have brk: "brk \<noteq> []" "\<forall>c \<in> set brk. isCrLf c"
    using Cons.prems by (auto simp: footShape_def)
  have shape: "footShape body brk lastLine"
    using Cons.prems by (auto simp: footShape_def split: if_splits)
  have none: "afterBreak (lazyFind w k) (x # body @ brk @ lastLine) = None"
  proof (cases "isCrLf x")
    case False
    then show ?thesis by (simp add: afterBreak_def)
  next
    case True
    then have ne: "body \<noteq> []" and lb: "\<not> isCrLf (last body)"
      using Cons.prems by (auto simp: footShape_def split: if_splits)
    have "last body \<in> set body"
      using ne by simp
    then have "dropWhile isCrLf (body @ brk @ lastLine) = dropWhile isCrLf body @ brk @ lastLine"
      using lb by (meson dropWhile_append1)
    moreover have "\<exists>c \<in> set (dropWhile isCrLf body @ brk @ lastLine). isLineTerminator c"
      using brk isCrLf_LT by (cases brk) auto
    ultimately have "lazyFind w k (dropWhile isCrLf (body @ brk @ lastLine)) = None"
      using failsOnLT_lazyFind [OF assms(1,2)] unfolding failsOnLT_def by metis
    then show ?thesis
      using True by (simp add: afterBreak_def)
  qed
  show ?case
    using deleteMatches_skip [where f = "afterBreak (lazyFind w k)", OF none] Cons.IH [OF shape]
    by simp
qed

lemma footerRx1_shape:
  "footerRx1 = Cls isCrLf # Star True [Cls isCrLf] # Star False [dot] #
      (map Chr (str ''End of Project Gutenberg'') @ [Star True [dot], Eol])"
  by (simp add: footerRx1_def lit_def plus_def)

lemma footerRx2_shape:
  "footerRx2 = Cls isCrLf # Star True [Cls isCrLf] # Star False [dot] #
      (map Chr (str ''END OF'') @
         (Star False [dot] # (map Chr (str ''PROJECT GUTENBERG'') @ [Star True [dot], Eol])))"
  by (simp add: footerRx2_def lit_def plus_def)

lemma plainLit_footer_markers:
  "plainLit (str ''End of Project Gutenberg'')" "plainLit (str ''END OF'')"
  "plainLit (str ''PROJECT GUTENBERG'')"
  by (simp_all add: plainLit_def str_def canonicalize_def isLower_def isLineTerminator_def)

lemma stripFooter1_deleteMatches:
  "stripFooter1 s
   = deleteMatches (afterBreak (lazyFind (str ''End of Project Gutenberg'') textEnd)) s"
  unfolding stripFooter1_def rxReplaceAll_def footerRx1_shape
  by (rule rxReplaceFrom_deleteMatches)
     (rule firstOf_footer [OF plainLit_footer_markers(1)], rule firstOf_textEnd)

lemma stripFooter2_deleteMatches:
  "stripFooter2 s
   = deleteMatches (afterBreak (lazyFind (str ''END OF'')
        (lazyFind (str ''PROJECT GUTENBERG'') textEnd))) s"
  unfolding stripFooter2_def rxReplaceAll_def footerRx2_shape
  by (rule rxReplaceFrom_deleteMatches)
     (rule firstOf_footer [OF plainLit_footer_markers(2)], rule firstOf_lazyFind,
      rule firstOf_textEnd)

lemma stripHeader_removed:
  assumes "lineShape l brk rest" and "containsLit True (str ''Project Gutenberg'') l"
  shows "stripHeader (l @ brk @ rest) = stripHeader rest"
  unfolding stripHeader_deleteMatches
  by (rule deleteMatches_header_removed [OF plainLit_marker assms])

lemma stripHeader_kept:
  assumes "lineShape l brk rest" and "\<not> containsLit True (str ''Project Gutenberg'') l"
  shows "stripHeader (l @ brk @ rest) = l @ brk @ stripHeader rest"
  unfolding stripHeader_deleteMatches
  by (rule deleteMatches_header_kept [OF plainLit_marker assms])

lemma stripHeader_last_line:
  assumes "\<forall>c \<in> set t. \<not> isCrLf c"
  shows "stripHeader t = t"
  unfolding stripHeader_deleteMatches
  by (rule deleteMatches_header_last_line [OF assms])

lemma stripFooter1_removed:
  assumes "footShape body brk lastLine"
    and "containsLit True (str ''End of Project Gutenberg'') lastLine"
  shows "stripFooter1 (body @ brk @ lastLine) = body"
proof -
  have ll: "\<forall>c \<in> set lastLine. \<not> isLineTerminator c"
    using assms(1) by (simp add: footShape_def)
  have w: "str ''End of Project Gutenberg'' \<noteq> []"
    using plainLit_footer_markers(1) by (simp add: plainLit_def)
  have f: "lazyFind (str ''End of Project Gutenberg'') textEnd lastLine = Some []"
    using lazyFind_textEnd [OF w ll] assms(2) by simp
  show ?thesis
    unfolding stripFooter1_deleteMatches
    by (rule deleteMatches_footer [OF plainLit_footer_markers(1) failsOnLT_textEnd assms(1) f])
qed

lemma stripFooter2_removed:
  assumes "footShape body brk lastLine"
    and "containsLit2 (str ''END OF'') (str ''PROJECT GUTENBERG'') lastLine"
  shows "stripFooter2 (body @ brk @ lastLine) = body"
proof -
  have ll: "\<forall>c \<in> set lastLine. \<not> isLineTerminator c"
    using assms(1) by (simp add: footShape_def)
  have a: "str ''END OF'' \<noteq> []" and b: "str ''PROJECT GUTENBERG'' \<noteq> []"
    using plainLit_footer_markers(2,3) by (simp_all add: plainLit_def)
  have f: "lazyFind (str ''END OF'') (lazyFind (str ''PROJECT GUTENBERG'') textEnd) lastLine
      = Some []"
    using lazyFind2_textEnd [OF a b ll] assms(2) by simp
  show ?thesis
    unfolding stripFooter2_deleteMatches
    by (rule deleteMatches_footer [OF plainLit_footer_markers(2)
          failsOnLT_lazyFind [OF plainLit_footer_markers(3) failsOnLT_textEnd] assms(1) f])
qed

lemma deleteMatches_footer_no_break:
  assumes "\<forall>c \<in> set t. \<not> isCrLf c"
  shows "deleteMatches (afterBreak k) t = t"
  using assms
proof (induction t)
  case Nil
  have "afterBreak k [] = None"
    by (simp add: afterBreak_def)
  then show ?case
    by (rule deleteMatches_Nil)
next
  case (Cons x t)
  have "afterBreak k (x # t) = None"
    using Cons.prems by (simp add: afterBreak_def)
  then show ?case
    using deleteMatches_skip [where f = "afterBreak k" and x = x and xs = t] Cons by simp
qed

lemma deleteMatches_footer_break_kept:
  assumes "\<forall>c \<in> set brk. isCrLf c" and "\<forall>c \<in> set lastLine. \<not> isLineTerminator c"
    and "k lastLine = None"
  shows "deleteMatches (afterBreak k) (brk @ lastLine) = brk @ lastLine"
  using assms(1)
proof (induction brk)
  case Nil
  have "\<forall>c \<in> set lastLine. \<not> isCrLf c"
    using assms(2) isCrLf_LT by blast
  then show ?case
    using deleteMatches_footer_no_break [of lastLine k] by simp
next
  case (Cons c cs)
  have "\<forall>c \<in> set lastLine. \<not> isCrLf c"
    using assms(2) isCrLf_LT by blast
  then have "dropWhile isCrLf lastLine = lastLine"
    by (cases lastLine) simp_all
  then have "dropWhile isCrLf (cs @ lastLine) = lastLine"
    using Cons.prems by (simp add: dropWhile_append)
  then have "afterBreak k (c # cs @ lastLine) = None"
    using Cons.prems assms(3) by (simp add: afterBreak_def)
  then show ?case
    using deleteMatches_skip [where f = "afterBreak k" and x = c and xs = "cs @ lastLine"] Cons
    by simp
qed

lemma deleteMatches_footer_kept:
  assumes "plainLit w" and "failsOnLT k" and "footShape body brk lastLine"
    and "lazyFind w k lastLine = None"
  shows "deleteMatches (afterBreak (lazyFind w k)) (body @ brk @ lastLine) = body @ brk @ lastLine"
  using assms(3)
proof (induction body)
  case Nil
  then have "\<forall>c \<in> set brk. isCrLf c" and "\<forall>c \<in> set lastLine. \<not> isLineTerminator c"
    by (auto simp: footShape_def)
  then show ?case
    using deleteMatches_footer_break_kept [of brk lastLine "lazyFind w k"] assms(4) by simp
next
  case (Cons x body)
  have brk: "brk \<noteq> []" "\<forall>c \<in> set brk. isCrLf c"
    using Cons.prems by (auto simp: footShape_def)
  have shape: "footShape body brk lastLine"
    using Cons.prems by (auto simp: footShape_def split: if_splits)
  have none: "afterBreak (lazyFind w k) (x # body @ brk @ lastLine) = None"
  proof (cases "isCrLf x")
    case False
    then show ?thesis by (simp add: afterBreak_def)
  next
    case True
    then have ne: "body \<noteq> []" and lb: "\<not> isCrLf (last body)"
      using Cons.prems by (auto simp: footShape_def split: if_splits)
    have "last body \<in> set body"
      using ne by simp
    then have "dropWhile isCrLf (body @ brk @ lastLine) = dropWhile isCrLf body @ brk @ lastLine"
      using lb by (meson dropWhile_append1)
    moreover have "\<exists>c \<in> set (dropWhile isCrLf body @ brk @ lastLine). isLineTerminator c"
      using brk isCrLf_LT by (cases brk) auto
    ultimately have "lazyFind w k (dropWhile isCrLf (body @ brk @ lastLine)) = None"
      using failsOnLT_lazyFind [OF assms(1,2)] unfolding failsOnLT_def by metis
    then show ?thesis
      using True by (simp add: afterBreak_def)
  qed
  show ?case
    using deleteMatches_skip [where f = "afterBreak (lazyFind w k)", OF none] Cons.IH [OF shape]
    by simp
qed

lemma stripFooter1_kept:
  assumes "footShape body brk lastLine"
    and "\<not> containsLit True (str ''End of Project Gutenberg'') lastLine"
  shows "stripFooter1 (body @ brk @ lastLine) = body @ brk @ lastLine"
proof -
  have ll: "\<forall>c \<in> set lastLine. \<not> isLineTerminator c"
    using assms(1) by (simp add: footShape_def)
  have w: "str ''End of Project Gutenberg'' \<noteq> []"
    using plainLit_footer_markers(1) by (simp add: plainLit_def)
  have f: "lazyFind (str ''End of Project Gutenberg'') textEnd lastLine = None"
    using lazyFind_textEnd [OF w ll] assms(2) by simp
  show ?thesis
    unfolding stripFooter1_deleteMatches
    by (rule deleteMatches_footer_kept [OF plainLit_footer_markers(1) failsOnLT_textEnd assms(1) f])
qed

lemma stripFooter2_kept:
  assumes "footShape body brk lastLine"
    and "\<not> containsLit2 (str ''END OF'') (str ''PROJECT GUTENBERG'') lastLine"
  shows "stripFooter2 (body @ brk @ lastLine) = body @ brk @ lastLine"
proof -
  have ll: "\<forall>c \<in> set lastLine. \<not> isLineTerminator c"
    using assms(1) by (simp add: footShape_def)
  have a: "str ''END OF'' \<noteq> []" and b: "str ''PROJECT GUTENBERG'' \<noteq> []"
    using plainLit_footer_markers(2,3) by (simp_all add: plainLit_def)
  have f: "lazyFind (str ''END OF'') (lazyFind (str ''PROJECT GUTENBERG'') textEnd) lastLine
      = None"
    using lazyFind2_textEnd [OF a b ll] assms(2) by simp
  show ?thesis
    unfolding stripFooter2_deleteMatches
    by (rule deleteMatches_footer_kept [OF plainLit_footer_markers(2)
          failsOnLT_lazyFind [OF plainLit_footer_markers(3) failsOnLT_textEnd] assms(1) f])
qed

lemma stripFooter_no_break:
  assumes "\<forall>c \<in> set t. \<not> isCrLf c"
  shows "stripFooter1 t = t" and "stripFooter2 t = t"
  unfolding stripFooter1_deleteMatches stripFooter2_deleteMatches
  by (rule deleteMatches_footer_no_break [OF assms])+

lemma deleteMatches_unfold_Cons:
  "deleteMatches f (x # xs) =
     (case f (x # xs) of
        Some r \<Rightarrow> if length r < length (x # xs) then deleteMatches f r else x # deleteMatches f xs
      | None \<Rightarrow> x # deleteMatches f xs)"
  by (subst deleteMatches.simps) (simp split: option.splits)

lemma deleteMatches_unfold_Nil: "deleteMatches f [] = []"
  by (subst deleteMatches.simps) (simp split: option.splits)

text \<open>
  Claim C6. The boilerplate step is run on three texts in which an "end of" marker line
  is followed by a licence line. In each the licence line after the marker stays in the
  cleaned text: a footer expression ends in \<^verbatim>\<open>.*$\<close> and the dot does not cross a line
  break, so it can match only when the marker is on the last line, and the marker line
  itself, which ends in a line break and contains the header marker, is removed by the
  header expression before the footer expressions run. In the first text the title
  line before the header marker line stays as well. The code does not remove the footer
  block that the claim describes.
\<close>

theorem boilerplate_keeps_text_around_markers:
  "cleanedTextOf (str ''Title'' @ [10] @ str ''The Project Gutenberg EBook'' @ [10] @ str ''Body''
       @ [10] @ str ''End of Project Gutenberg'' @ [10] @ str ''License'')
   = str ''Title'' @ [10] @ str ''Body'' @ [10] @ str ''License''
   \<and> cleanedTextOf (str ''Body'' @ [10] @ str ''End of Project Gutenberg'' @ [10] @ str ''License'')
   = str ''Body'' @ [10] @ str ''License''
   \<and> cleanedTextOf (str ''Body'' @ [10] @ str ''*** END OF THE PROJECT GUTENBERG EBOOK ***'' @ [10]
       @ str ''License'')
   = str ''Body'' @ [10] @ str ''License''"
  unfolding cleanedTextOf_def stripHeader_deleteMatches stripFooter1_deleteMatches
    stripFooter2_deleteMatches
  by (simp add: str_def deleteMatches_unfold_Cons deleteMatches_unfold_Nil afterBreak_def
      chrMatches_def canonicalize_def isLower_def isCrLf_def isLineTerminator_def textEnd_def)

text \<open>
  How the three replacements act on a text whose lines hold no line terminator other
  than CR and LF. The header replacement works line by line: a line that ends in a run
  of CR and LF is removed together with that run when it contains the marker
  "Project Gutenberg" in any letter case, and is kept with its run otherwise. Each footer
  replacement looks at the last line only, the text after the last run of CR and LF: when
  that line contains the marker "End of Project Gutenberg" (for the second spelling:
  "END OF" and later "PROJECT GUTENBERG"), in any letter case, the line is removed
  together with the run before it, and otherwise the text is left as it is. A text
  without CR and LF is left as it is by all three replacements.
\<close>

theorem boilerplate_stripping_line_wise:
  "cleanedTextOf fullText = stripFooter2 (stripFooter1 (stripHeader fullText))
   \<and> (lineShape l brk rest \<and> containsLit True (str ''Project Gutenberg'') l
        \<longrightarrow> stripHeader (l @ brk @ rest) = stripHeader rest)
   \<and> (lineShape l brk rest \<and> \<not> containsLit True (str ''Project Gutenberg'') l
        \<longrightarrow> stripHeader (l @ brk @ rest) = l @ brk @ stripHeader rest)
   \<and> ((\<forall>c \<in> set t. \<not> isCrLf c) \<longrightarrow> stripHeader t = t \<and> stripFooter1 t = t \<and> stripFooter2 t = t)
   \<and> (footShape body brk' lastLine
        \<longrightarrow> stripFooter1 (body @ brk' @ lastLine)
            = (if containsLit True (str ''End of Project Gutenberg'') lastLine then body
               else body @ brk' @ lastLine))
   \<and> (footShape body brk' lastLine
        \<longrightarrow> stripFooter2 (body @ brk' @ lastLine)
            = (if containsLit2 (str ''END OF'') (str ''PROJECT GUTENBERG'') lastLine then body
               else body @ brk' @ lastLine))"
  using stripHeader_removed [of l brk rest] stripHeader_kept [of l brk rest]
    stripHeader_last_line [of t] stripFooter_no_break [of t]
    stripFooter1_removed [of body brk' lastLine] stripFooter1_kept [of body brk' lastLine]
    stripFooter2_removed [of body brk' lastLine] stripFooter2_kept [of body brk' lastLine]
  by (simp add: cleanedTextOf_def)

text \<open>
  A header line removed, a title line kept, a last line removed for each of the two
  footer spellings, and a footer marker line that is not the last line left in place by
  both footer replacements.
\<close>

theorem boilerplate_stripping_examples:
  "stripHeader (str ''The Project Gutenberg EBook'' @ [10] @ str ''Body'') = str ''Body''
   \<and> stripHeader (str ''Title'' @ [10] @ str ''Body'') = str ''Title'' @ [10] @ str ''Body''
   \<and> stripFooter1 (str ''Body'' @ [13, 10] @ str ''End of Project Gutenberg'') = str ''Body''
   \<and> stripFooter2 (str ''Body'' @ [13, 10] @ str ''*** END OF THE PROJECT GUTENBERG EBOOK'')
       = str ''Body''
   \<and> stripFooter1 ((str ''Body'' @ [10] @ str ''End of Project Gutenberg'') @ [10] @ str ''License'')
       = (str ''Body'' @ [10] @ str ''End of Project Gutenberg'') @ [10] @ str ''License''
   \<and> stripFooter2 ((str ''Body'' @ [10] @ str ''End of Project Gutenberg'') @ [10] @ str ''License'')
       = (str ''Body'' @ [10] @ str ''End of Project Gutenberg'') @ [10] @ str ''License''"
proof -
  let ?mid = "str ''Body'' @ [10] @ str ''End of Project Gutenberg''"
  have body: "\<forall>c \<in> set (str ''Body''). \<not> isCrLf c"
    by (simp add: str_def isCrLf_def)
  have s1: "lineShape (str ''The Project Gutenberg EBook'') [10] (str ''Body'')"
    and s2: "lineShape (str ''Title'') [10] (str ''Body'')"
    by (simp_all add: lineShape_def str_def isLineTerminator_def isCrLf_def)
  have c1: "containsLit True (str ''Project Gutenberg'') (str ''The Project Gutenberg EBook'')"
    and c2: "\<not> containsLit True (str ''Project Gutenberg'') (str ''Title'')"
    by (simp_all add: str_def chrMatches_def canonicalize_def isLower_def)
  have f1: "footShape (str ''Body'') [13, 10] (str ''End of Project Gutenberg'')"
    and f2: "footShape (str ''Body'') [13, 10] (str ''*** END OF THE PROJECT GUTENBERG EBOOK'')"
    and f3: "footShape ?mid [10] (str ''License'')"
    by (simp_all add: footShape_def str_def isLineTerminator_def isCrLf_def)
  have c3: "containsLit True (str ''End of Project Gutenberg'') (str ''End of Project Gutenberg'')"
    by (simp add: str_def chrMatches_def canonicalize_def isLower_def)
  have c4: "containsLit2 (str ''END OF'') (str ''PROJECT GUTENBERG'')
      (str ''*** END OF THE PROJECT GUTENBERG EBOOK'')"
    by (simp add: str_def chrMatches_def canonicalize_def isLower_def)
  have c5: "\<not> containsLit True (str ''End of Project Gutenberg'') (str ''License'')"
    and c6: "\<not> containsLit2 (str ''END OF'') (str ''PROJECT GUTENBERG'') (str ''License'')"
    by (simp_all add: str_def chrMatches_def canonicalize_def isLower_def)
  note w1 = boilerplate_stripping_line_wise [where l = "str ''The Project Gutenberg EBook''"
      and brk = "[10]" and rest = "str ''Body''" and t = "str ''Body''" and body = "str ''Body''"
      and brk' = "[13, 10]" and lastLine = "str ''End of Project Gutenberg''"]
  note w2 = boilerplate_stripping_line_wise [where l = "str ''Title''"
      and brk = "[10]" and rest = "str ''Body''" and t = "str ''Body''" and body = "str ''Body''"
      and brk' = "[13, 10]" and lastLine = "str ''*** END OF THE PROJECT GUTENBERG EBOOK''"]
  note w3 = boilerplate_stripping_line_wise [where l = "str ''Title''"
      and brk = "[10]" and rest = "str ''Body''" and t = "str ''Body''" and body = ?mid
      and brk' = "[10]" and lastLine = "str ''License''"]
  have h: "stripHeader (str ''Body'') = str ''Body''"
    using w1 body by blast
  have a: "stripHeader (str ''The Project Gutenberg EBook'' @ [10] @ str ''Body'') = str ''Body''"
    using w1 s1 c1 h by simp
  have b: "stripHeader (str ''Title'' @ [10] @ str ''Body'') = str ''Title'' @ [10] @ str ''Body''"
    using w2 s2 c2 h by simp
  have c: "stripFooter1 (str ''Body'' @ [13, 10] @ str ''End of Project Gutenberg'') = str ''Body''"
    using w1 f1 c3 by presburger
  have d: "stripFooter2 (str ''Body'' @ [13, 10] @ str ''*** END OF THE PROJECT GUTENBERG EBOOK'')
       = str ''Body''"
    using w2 f2 c4 by presburger
  have e: "stripFooter1 (?mid @ [10] @ str ''License'') = ?mid @ [10] @ str ''License''"
    using w3 f3 c5 by presburger
  have f: "stripFooter2 (?mid @ [10] @ str ''License'') = ?mid @ [10] @ str ''License''"
    using w3 f3 c6 by presburger
  show ?thesis
    using a b c d e f by blast
qed

section \<open>Heading tests of the start-line scan\<close>










lemma ms_lit_only: "ms ic (map Chr w) p s \<noteq> [] \<longleftrightarrow> litPrefix ic w s"
  using ms_lit [of ic w "[]" p s] by simp



section \<open>Start index and length policy\<close>








lemma length_take_dots: "length (take 497 xs @ str ''...'') \<le> 500"
  by (simp add: str_def)

lemma take_dots_nonempty: "take 497 xs @ str ''...'' \<noteq> []"
  by (simp add: str_def)

lemma placeholder_length: "length (str ''Excerpt not available for this book.'') = 36"
  by (simp add: str_def)

lemma dots_nonempty: "str ''...'' \<noteq> []"
  by (simp add: str_def)

lemma lengthPolicy_long:
  "500 < length excerpt \<Longrightarrow> lengthPolicy excerpt lines startIndex = take 497 excerpt @ str ''...''"
  using dots_nonempty by (simp add: lengthPolicy_def Let_def)

lemma lengthPolicy_short:
  "length excerpt < 100 \<Longrightarrow> startIndex + 10 < length lines
     \<Longrightarrow> lengthPolicy excerpt lines startIndex
         = take 497 (excerpt @ [32] @ trim (joinWith [32] (slice lines (startIndex + 10) (startIndex + 20)))) @ str ''...''"
  using dots_nonempty by (simp add: lengthPolicy_def Let_def)

lemma lengthPolicy_keep:
  "length excerpt \<le> 500 \<Longrightarrow> \<not> (length excerpt < 100 \<and> startIndex + 10 < length lines)
     \<Longrightarrow> lengthPolicy excerpt lines startIndex = (if excerpt = [] then str ''Excerpt not available for this book.'' else excerpt)"
  by (auto simp add: lengthPolicy_def Let_def)

lemma lengthPolicy_bound: "length (lengthPolicy excerpt lines startIndex) \<le> 500"
proof -
  consider (a) "500 < length excerpt"
    | (b) "length excerpt < 100 \<and> startIndex + 10 < length lines"
    | (c) "length excerpt \<le> 500 \<and> \<not> (length excerpt < 100 \<and> startIndex + 10 < length lines)"
    by linarith
  then show ?thesis
  proof cases
    case a
    then show ?thesis
      using length_take_dots [of excerpt] by (simp only: lengthPolicy_long)
  next
    case b
    then show ?thesis
      using length_take_dots [of "excerpt @ [32] @ trim (joinWith [32] (slice lines (startIndex + 10) (startIndex + 20)))"]
      by (simp only: lengthPolicy_short)
  next
    case c
    then show ?thesis
      using placeholder_length by (simp add: lengthPolicy_keep)
  qed
qed

lemma lengthPolicy_nonempty: "lengthPolicy excerpt lines startIndex \<noteq> []"
  using dots_nonempty by (simp add: lengthPolicy_def Let_def) (simp add: str_def)

text \<open>
  Claim C5. The extractor applies the length policy to the cleaned excerpt, and its output
  is non-empty and at most 500 characters long for every input text. An excerpt of more
  than 500 characters is cut to its first 497 characters and an ellipsis of three dots is
  appended. An excerpt of fewer than 100 characters, when more than 10 lines follow the
  start index, is extended by a space and the trimmed join of the next 10 lines, cut to
  497 characters, and the ellipsis is appended. In every other case the excerpt is
  returned as it is, or the placeholder when it is empty.
\<close>

theorem excerpt_length_policy:
  "extractCleanExcerpt fullText bookTitle
     = lengthPolicy (excerptOf (linesOf (cleanedTextOf fullText))) (linesOf (cleanedTextOf fullText))
         (startIndexOf (linesOf (cleanedTextOf fullText)))
   \<and> length (extractCleanExcerpt fullText bookTitle) \<le> 500
   \<and> extractCleanExcerpt fullText bookTitle \<noteq> []
   \<and> (500 < length excerpt
        \<longrightarrow> lengthPolicy excerpt lines startIndex = take 497 excerpt @ str ''...'')
   \<and> (length excerpt < 100 \<and> startIndex + 10 < length lines
        \<longrightarrow> lengthPolicy excerpt lines startIndex
            = take 497 (excerpt @ [32] @ trim (joinWith [32] (slice lines (startIndex + 10) (startIndex + 20)))) @ str ''...'')
   \<and> (length excerpt \<le> 500 \<and> \<not> (length excerpt < 100 \<and> startIndex + 10 < length lines)
        \<longrightarrow> lengthPolicy excerpt lines startIndex = (if excerpt = [] then str ''Excerpt not available for this book.'' else excerpt))"
  using lengthPolicy_long [of excerpt lines startIndex] lengthPolicy_short [of excerpt startIndex lines]
    lengthPolicy_keep [of excerpt startIndex lines]
    lengthPolicy_bound [of "excerptOf (linesOf (cleanedTextOf fullText))" "linesOf (cleanedTextOf fullText)"
      "startIndexOf (linesOf (cleanedTextOf fullText))"]
    lengthPolicy_nonempty [of "excerptOf (linesOf (cleanedTextOf fullText))" "linesOf (cleanedTextOf fullText)"
      "startIndexOf (linesOf (cleanedTextOf fullText))"]
  by (simp add: extractCleanExcerpt_def Let_def)


text \<open>
  An excerpt of 501 characters is cut to 497 plus the ellipsis, a short excerpt with an
  eleventh line is extended, a short excerpt with no further line is returned unchanged,
  and the empty excerpt gives the placeholder.
\<close>

theorem excerpt_length_policy_witness:
  "lengthPolicy (replicate 501 97) [] 0 = replicate 497 97 @ str ''...''
   \<and> lengthPolicy (str ''Hi'') (replicate 10 (str ''skipped'') @ [str ''there '']) 0 = str ''Hi there...''
   \<and> lengthPolicy (str ''Hi'') [str ''Hi''] 0 = str ''Hi''
   \<and> lengthPolicy [] [] 0 = str ''Excerpt not available for this book.''
   \<and> length (extractCleanExcerpt (str ''Hi'') (str ''Title'')) \<le> 500
   \<and> extractCleanExcerpt (str ''Hi'') (str ''Title'') \<noteq> []"
proof -
  let ?ls = "replicate 10 (str ''skipped'') @ [str ''there '']"
  note w1 = excerpt_length_policy [where fullText = "str ''Hi''" and bookTitle = "str ''Title''"
      and excerpt = "replicate 501 97" and lines = "[]" and startIndex = 0]
  note w2 = excerpt_length_policy [where fullText = "str ''Hi''" and bookTitle = "str ''Title''"
      and excerpt = "str ''Hi''" and lines = ?ls and startIndex = 0]
  note w3 = excerpt_length_policy [where fullText = "str ''Hi''" and bookTitle = "str ''Title''"
      and excerpt = "str ''Hi''" and lines = "[str ''Hi'']" and startIndex = 0]
  note w4 = excerpt_length_policy [where fullText = "str ''Hi''" and bookTitle = "str ''Title''"
      and excerpt = "[]" and lines = "[]" and startIndex = 0]
  note p1 = w1 [THEN conjunct2, THEN conjunct2, THEN conjunct2]
  note p2 = w2 [THEN conjunct2, THEN conjunct2, THEN conjunct2]
  note p3 = w3 [THEN conjunct2, THEN conjunct2, THEN conjunct2]
  note p4 = w4 [THEN conjunct2, THEN conjunct2, THEN conjunct2]
  have a: "lengthPolicy (replicate 501 97) [] 0 = replicate 497 97 @ str ''...''"
    using p1 [THEN conjunct1] by simp
  have m: "trim (joinWith [32] (slice ?ls (0 + 10) (0 + 20))) = str ''there''"
    by (simp add: slice_def trim_def str_def isWhiteSpace_def)
  have b: "lengthPolicy (str ''Hi'') ?ls 0 = str ''Hi there...''"
    using p2 [THEN conjunct2, THEN conjunct1] unfolding m by (simp add: str_def)
  have c: "lengthPolicy (str ''Hi'') [str ''Hi''] 0 = str ''Hi''"
    using p3 [THEN conjunct2, THEN conjunct2] by (simp add: str_def)
  have d: "lengthPolicy [] [] 0 = str ''Excerpt not available for this book.''"
    using p4 [THEN conjunct2, THEN conjunct2] by simp
  show ?thesis
    using a b c d w1 [THEN conjunct2, THEN conjunct1]
      w1 [THEN conjunct2, THEN conjunct2, THEN conjunct1] by blast
qed

section \<open>Task identifiers\<close>

lemma firstMatch_Cls_Cons:
  "firstMatch ic [Cls A] p (x # xs) = (if clsMatches ic A x then Some (Some x, xs) else None)"
  by (simp add: firstMatch_def)

lemma firstMatch_Cls_Nil: "firstMatch ic [Cls A] p [] = None"
  by (simp add: firstMatch_def)

lemma rxReplaceFrom_Cls_delete:
  "rxReplaceFrom False [Cls A] [] p s = filter (\<lambda>c. \<not> A c) s"
proof (induction s arbitrary: p)
  case Nil
  show ?case
    by (subst rxReplaceFrom.simps) (simp add: firstMatch_Cls_Nil)
next
  case (Cons x xs)
  show ?case
    by (subst rxReplaceFrom.simps) (simp add: firstMatch_Cls_Cons clsMatches_def Cons.IH)
qed

lemma ms_Star_Cls_Eol:
  "ms False [Star True [Cls A], Eol] p s \<noteq> [] \<longleftrightarrow> list_all A s"
proof (induction s arbitrary: p)
  case Nil
  show ?case by (simp add: ms_Star_Cls_Nil)
next
  case (Cons x xs)
  show ?case
    using Cons.IH [of "Some x"] by (simp add: ms_Star_Cls_Cons clsMatches_def)
qed

lemma rxSearch_taskIdRx_later: "rxSearch False taskIdRx (Some c) s = False"
  by (simp add: taskIdRx_def rxSearch_Bol_later)

lemma rxTest_taskIdRx: "rxTest False taskIdRx s \<longleftrightarrow> s \<noteq> [] \<and> list_all isTaskIdChar s"
proof (cases s)
  case Nil
  then show ?thesis
    by (simp add: rxTest_def taskIdRx_def plus_def firstMatch_None_iff)
next
  case (Cons x xs)
  have "ms False taskIdRx None (x # xs) =
      (if isTaskIdChar x then ms False [Star True [Cls isTaskIdChar], Eol] (Some x) xs else [])"
    by (simp add: taskIdRx_def plus_def clsMatches_def)
  then show ?thesis
    using Cons ms_Star_Cls_Eol [of isTaskIdChar "Some x" xs]
    by (simp add: rxTest_def firstMatch_None_iff rxSearch_taskIdRx_later)
qed

lemma trim_padded:
  assumes "list_all isWhiteSpace a" and "list_all isWhiteSpace b"
    and "t \<noteq> []" and "\<not> isWhiteSpace (hd t)" and "\<not> isWhiteSpace (last t)"
  shows "trim (a @ t @ b) = t"
proof -
  have 1: "dropWhile isWhiteSpace (a @ t @ b) = t @ b"
    using assms(1,3,4) by (cases t) (simp_all add: dropWhile_append list_all_iff)
  have 2: "dropWhile isWhiteSpace (rev b @ rev t) = rev t"
  proof -
    have "dropWhile isWhiteSpace (rev b @ rev t) = dropWhile isWhiteSpace (rev t)"
      using assms(2) by (simp add: dropWhile_append list_all_iff)
    also have "\<dots> = rev t"
      using assms(3,5) by (simp add: dropWhile_eq_self_iff hd_rev)
    finally show ?thesis .
  qed
  show ?thesis
    by (simp add: trim_def 1 2)
qed

lemma taskIdChar_not_ws: "isTaskIdChar c \<Longrightarrow> \<not> isWhiteSpace c"
  by (auto simp: isTaskIdChar_def isWhiteSpace_def isLower_def isUpper_def isDigit_def)

lemma parseTaskId_decorated:
  assumes "tid \<noteq> []" and "list_all isTaskIdChar tid"
    and "list_all isWhiteSpace a" and "list_all isWhiteSpace b"
    and "filter (\<lambda>c. \<not> isControlChar c) raw = a @ tid @ b"
  shows "parseTaskId (JStr raw) = Inr tid" and "raw \<noteq> []"
proof -
  have hd: "\<not> isWhiteSpace (hd tid)" and last: "\<not> isWhiteSpace (last tid)"
    using assms(1,2) by (auto simp: list_all_iff intro!: taskIdChar_not_ws)
  have san: "sanitizeString (JStr raw) = Inr tid"
    using trim_padded [OF assms(3,4,1) hd last] assms(5)
    by (simp add: sanitizeString_def rxReplaceAll_def rxReplaceFrom_Cls_delete)
  show ne: "raw \<noteq> []"
    using assms(1,5) by auto
  show "parseTaskId (JStr raw) = Inr tid"
    using san ne assms(1,2) by (simp add: parseTaskId_def validateTaskId_def rxTest_taskIdRx)
qed

section \<open>Reading and canceling a task\<close>

lemma parseTaskId_Inr_truthy: "parseTaskId v = Inr tid \<Longrightarrow> truthy v"
  by (cases v) (auto simp: parseTaskId_def split: if_splits)

lemma handleTaskGet_store: "snd (handleTaskGet e params ident store) = store"
  by (simp add: handleTaskGet_def split: sum.splits option.splits)

lemma handleTaskGet_returned:
  "returnedTask (fst (handleTaskGet e params ident store)) =
     (if truthy params \<and> truthy (getProp params ''id'')
      then (case parseTaskId (getProp params ''id'') of Inl err \<Rightarrow> None | Inr tid \<Rightarrow> store tid)
      else None)"
  by (simp add: handleTaskGet_def returnedTask_def createErrorResponse_def
      handleValidationError_def handleTaskNotFound_def split: sum.splits option.splits)

text \<open>
  Claim C9. The handler of tasks/get leaves the store as it found it, so no status,
  artifact or history record of any task changes; a second call, at any later time,
  returns the same task as the first; and for a stored task the response carries the
  stored task itself.
\<close>

theorem handleTaskGet_nonmutating:
  "snd (handleTaskGet e params ident store) = store
   \<and> returnedTask (fst (handleTaskGet e' params ident' (snd (handleTaskGet e params ident store))))
       = returnedTask (fst (handleTaskGet e params ident store))
   \<and> (\<forall>tid t. truthy params \<and> parseTaskId (getProp params ''id'') = Inr tid \<and> store tid = Some t
        \<longrightarrow> fst (handleTaskGet e params ident store)
              = RpcResult (TaskGetResult t (nowIso e) (taskAge e t)) ident)"
proof -
  have "fst (handleTaskGet e params ident store)
          = RpcResult (TaskGetResult t (nowIso e) (taskAge e t)) ident"
    if "truthy params" "parseTaskId (getProp params ''id'') = Inr tid" "store tid = Some t"
    for tid t
    using that parseTaskId_Inr_truthy [OF that(2)] by (simp add: handleTaskGet_def)
  then show ?thesis
    by (simp add: handleTaskGet_store handleTaskGet_returned)
qed

text \<open>
  Claim C2. For a stored task in state working, tasks/cancel stores the task in state
  canceled with exactly one history record appended, of event task_canceled, and leaves
  its artifacts alone. For a stored task in state completed or canceled, it answers with
  the JSON-RPC error code -32002 and leaves the store unchanged.
\<close>

theorem handleTaskCancel_one_way:
  assumes "truthy params" and "parseTaskId (getProp params ''id'') = Inr tid"
    and "store tid = Some t"
  shows "(state (status t) = Working \<longrightarrow>
           (\<exists>t' h. handleTaskCancel e params ident store
                    = (RpcResult (TaskCancelResult t' (nowIso e)) ident, store(tid \<mapsto> t'))
              \<and> state (status t') = Canceled
              \<and> history t' = history t @ [h]
              \<and> event h = str ''task_canceled''
              \<and> length (history t') = length (history t) + 1
              \<and> artifacts t' = artifacts t \<and> task_id t' = task_id t))
       \<and> (state (status t) = Completed \<or> state (status t) = Canceled \<longrightarrow>
           (\<exists>msg dat i. handleTaskCancel e params ident store
                    = (RpcError (- 32002) msg dat i, store)))"
proof -
  have id: "truthy (getProp params ''id'')"
    using assms(2) by (rule parseTaskId_Inr_truthy)
  show ?thesis
    using assms id
    by (cases "state (status t)")
       (simp_all add: handleTaskCancel_def createErrorResponse_def Let_def)
qed

lemma example_id_clean: "parseTaskId (JStr (str ''task_1_abc'')) = Inr (str ''task_1_abc'')"
  by (rule parseTaskId_decorated(1) [of _ "[]" "[]"])
     (simp_all add: str_def isTaskIdChar_def isLower_def isUpper_def isDigit_def isControlChar_def)

text \<open>
  Two reads of a completed task: the store is unchanged and both return the stored task.
\<close>

theorem handleTaskGet_nonmutating_witness:
  "handleTaskGet exampleEnv (JObj [(str ''id'', JStr (str ''task_1_abc''))]) (JNum 7)
      (exampleStore Completed)
    = (RpcResult (TaskGetResult (exampleTask Completed) (nowIso exampleEnv)
         (taskAge exampleEnv (exampleTask Completed))) (JNum 7), exampleStore Completed)"
proof -
  let ?p = "JObj [(str ''id'', JStr (str ''task_1_abc''))]"
  have 1: "truthy ?p" by simp
  have 2: "parseTaskId (getProp ?p ''id'') = Inr (str ''task_1_abc'')"
    by (simp add: example_id_clean)
  have 3: "exampleStore Completed (str ''task_1_abc'') = Some (exampleTask Completed)"
    by (simp add: exampleStore_def)
  from handleTaskGet_nonmutating [of exampleEnv ?p "JNum 7" "exampleStore Completed" exampleEnv "JNum 7"]
  have a: "snd (handleTaskGet exampleEnv ?p (JNum 7) (exampleStore Completed)) = exampleStore Completed"
    and b: "fst (handleTaskGet exampleEnv ?p (JNum 7) (exampleStore Completed))
       = RpcResult (TaskGetResult (exampleTask Completed) (nowIso exampleEnv)
         (taskAge exampleEnv (exampleTask Completed))) (JNum 7)"
    using 1 2 3 by blast+
  show ?thesis
    using a b by (simp add: prod_eq_iff)
qed

text \<open>
  Canceling a working task and canceling the canceled task again.
\<close>

theorem handleTaskCancel_one_way_witness:
  "(\<exists>t'. handleTaskCancel exampleEnv (JObj [(str ''id'', JStr (str ''task_1_abc''))]) (JNum 7)
            (exampleStore Working)
          = (RpcResult (TaskCancelResult t' (nowIso exampleEnv)) (JNum 7),
             (exampleStore Working)(str ''task_1_abc'' \<mapsto> t'))
        \<and> state (status t') = Canceled \<and> length (history t') = 1)
   \<and> (\<exists>msg dat i. handleTaskCancel exampleEnv (JObj [(str ''id'', JStr (str ''task_1_abc''))])
            (JNum 7) (exampleStore Completed)
          = (RpcError (- 32002) msg dat i, exampleStore Completed))
   \<and> (\<exists>msg dat i. handleTaskCancel exampleEnv (JObj [(str ''id'', JStr (str ''task_1_abc''))])
            (JNum 7) (exampleStore Canceled)
          = (RpcError (- 32002) msg dat i, exampleStore Canceled))"
proof -
  let ?p = "JObj [(str ''id'', JStr (str ''task_1_abc''))]"
  have 1: "truthy ?p" by simp
  have 2: "parseTaskId (getProp ?p ''id'') = Inr (str ''task_1_abc'')"
    by (simp add: example_id_clean)
  have 3: "exampleStore st (str ''task_1_abc'') = Some (exampleTask st)" for st
    by (simp add: exampleStore_def)
  have st: "state (status (exampleTask st)) = st" "history (exampleTask st) = []" for st
    by (simp_all add: exampleTask_def)
  show ?thesis
    using handleTaskCancel_one_way [where store = "exampleStore Working"
          and t = "exampleTask Working" and e = exampleEnv and ident = "JNum 7", OF 1 2 3]
      handleTaskCancel_one_way [where store = "exampleStore Completed"
          and t = "exampleTask Completed" and e = exampleEnv and ident = "JNum 7", OF 1 2 3]
      handleTaskCancel_one_way [where store = "exampleStore Canceled"
          and t = "exampleTask Canceled" and e = exampleEnv and ident = "JNum 7", OF 1 2 3]
    unfolding st by auto
qed

section \<open>Sanitised identifiers in every task operation\<close>

lemma getProp_id_first: "getProp (JObj ((str ''id'', v) # rest)) ''id'' = v"
  by simp




lemma handleTaskResubscribe_by_parsed_id:
  assumes "parseTaskId (JStr raw) = parseTaskId (JStr tid)" and "raw \<noteq> []" and "tid \<noteq> []"
  shows "handleTaskResubscribe e (JObj ((str ''id'', JStr raw) # rest)) ident store
         = handleTaskResubscribe e (JObj ((str ''id'', JStr tid) # rest)) ident store"
  unfolding handleTaskResubscribe_def getProp_id_first using assms by simp


lemma handleGetTaskPushNotificationConfig_resolved:
  assumes "parseTaskId (JStr raw) = Inr tid" and "raw \<noteq> []" and "store tid = Some t"
  shows "handleGetTaskPushNotificationConfig e (JObj ((str ''id'', JStr raw) # rest)) ident store
         = (RpcResult (GetPushConfigResult (task_id t) (pushNotificationConfig t)
              (pushNotificationConfig t \<noteq> None) (nowIso e)) ident, store)"
  unfolding handleGetTaskPushNotificationConfig_def getProp_id_first using assms by simp




section \<open>Push notification configuration\<close>

lemma example_config_parsed:
  "parsePushNotificationConfig exampleEnv exampleConfig = Inr (Some exampleParsedConfig)"
  by (simp add: parsePushNotificationConfig_def parseAuthentication_def parseOptString_def
      exampleConfig_def exampleParsedConfig_def exampleEnv_def str_def)

lemma set_push_example:
  "handleSetTaskPushNotificationConfig exampleEnv
      (JObj [(str ''id'', JStr (str ''task_1_abc'')), (str ''pushNotificationConfig'', exampleConfig)])
      (JNum 7) (exampleStore Working)
   = (RpcResult (SetPushConfigResult
         ((exampleTask Working)\<lparr>pushNotificationConfig := Some exampleParsedConfig,
            history := [\<lparr>h_timestamp = nowIso exampleEnv,
              event = str ''push_notification_config_set'',
              h_data = JObj [(str ''configuredAt'', JStr (nowIso exampleEnv)),
                (str ''hasUrl'', JBool True), (str ''hasAuth'', JBool True)]\<rparr>]\<rparr>)
         (Some exampleParsedConfig) (nowIso exampleEnv)) (JNum 7),
      (exampleStore Working)(str ''task_1_abc'' \<mapsto>
         (exampleTask Working)\<lparr>pushNotificationConfig := Some exampleParsedConfig,
            history := [\<lparr>h_timestamp = nowIso exampleEnv,
              event = str ''push_notification_config_set'',
              h_data = JObj [(str ''configuredAt'', JStr (nowIso exampleEnv)),
                (str ''hasUrl'', JBool True), (str ''hasAuth'', JBool True)]\<rparr>]\<rparr>))"
proof -
  have cfg: "getProp (JObj [(str ''id'', JStr (str ''task_1_abc'')),
        (str ''pushNotificationConfig'', exampleConfig)]) ''pushNotificationConfig'' = exampleConfig"
    by (simp add: str_def)
  have t: "truthy exampleConfig"
    by (simp add: exampleConfig_def)
  have u: "url exampleParsedConfig = Some (str ''https://example.com/webhook'')"
    "authentication exampleParsedConfig \<noteq> None"
    by (simp_all add: exampleParsedConfig_def)
  have p: "urlParses exampleEnv (str ''https://example.com/webhook'')"
    "str ''https://example.com/webhook'' \<noteq> []"
    by (simp_all add: exampleEnv_def str_def)
  have s: "exampleStore Working (str ''task_1_abc'') = Some (exampleTask Working)"
    by (simp add: exampleStore_def)
  have h: "history (exampleTask Working) = []"
    by (simp add: exampleTask_def)
  have n: "str ''task_1_abc'' \<noteq> []"
    by (simp add: str_def)
  show ?thesis
    unfolding handleSetTaskPushNotificationConfig_def getProp_id_first cfg
    by (simp add: example_id_clean example_config_parsed t u p s h n Let_def)
qed

text \<open>
  Claim C1. A push notification config with a bearer token is set on the example task and
  read back. The config read back has the url that was set. The response to
  tasks/setPushNotificationConfig and the response to tasks/getPushNotificationConfig
  both carry the token test-token in plaintext: the handlers return the stored config
  object, so the part of the claim that no response contains the token fails in the code.
\<close>

theorem push_config_token_echoed:
  "(let set_call = handleSetTaskPushNotificationConfig exampleEnv
       (JObj [(str ''id'', JStr (str ''task_1_abc'')),
              (str ''pushNotificationConfig'', exampleConfig)]) (JNum 7) (exampleStore Working);
        get_call = handleGetTaskPushNotificationConfig exampleEnv
       (JObj [(str ''id'', JStr (str ''task_1_abc''))]) (JNum 8) (snd set_call)
    in map_option url (responseConfig (fst get_call)) = Some (Some (str ''https://example.com/webhook''))
     \<and> str ''test-token'' \<in> set (responseTokens (fst set_call))
     \<and> str ''test-token'' \<in> set (responseTokens (fst get_call)))"
proof -
  have g: "handleGetTaskPushNotificationConfig exampleEnv
       (JObj [(str ''id'', JStr (str ''task_1_abc''))]) (JNum 8)
       (store(str ''task_1_abc'' \<mapsto> t))
     = (RpcResult (GetPushConfigResult (task_id t) (pushNotificationConfig t)
              (pushNotificationConfig t \<noteq> None) (nowIso exampleEnv)) (JNum 8),
        store(str ''task_1_abc'' \<mapsto> t))" for store t
    by (rule handleGetTaskPushNotificationConfig_resolved [OF example_id_clean])
       (simp_all add: str_def)
  show ?thesis
    unfolding set_push_example Let_def snd_conv fst_conv g
    by (simp add: configTokens_def exampleParsedConfig_def)
qed

text \<open>
  The token in the response to tasks/getPushNotificationConfig.
\<close>

theorem push_config_token_echoed_witness:
  "str ''test-token'' \<in> set (responseTokens (fst (handleGetTaskPushNotificationConfig exampleEnv
       (JObj [(str ''id'', JStr (str ''task_1_abc''))]) (JNum 8)
       (snd (handleSetTaskPushNotificationConfig exampleEnv
          (JObj [(str ''id'', JStr (str ''task_1_abc'')),
                 (str ''pushNotificationConfig'', exampleConfig)]) (JNum 7) (exampleStore Working))))))"
  using push_config_token_echoed by (simp add: Let_def)

section \<open>Artifacts of a task\<close>

lemma example_sanitized: "sanitizeString (JStr (str ''Sherlock Holmes'')) = Inr (str ''Sherlock Holmes'')"
  by (simp add: sanitizeString_def rxReplaceAll_def rxReplaceFrom_Cls_delete trim_def str_def
      isControlChar_def isWhiteSpace_def)

lemma example_not_dangerous:
  "\<not> list_ex (\<lambda>pattern. rxTest True pattern (str ''Sherlock Holmes'')) dangerousPatterns"
  by (simp add: dangerousPatterns_def scriptRx_def javascriptRx_def onHandlerRx_def lit_def
      plus_def rxTest_def firstMatch_None_iff str_def chrMatches_def canonicalize_def isLower_def)

lemma example_query: "extractSearchQuery exampleMessage = Inr (str ''Sherlock Holmes'')"
proof -
  have t: "trim (str ''Sherlock Holmes'') = str ''Sherlock Holmes''"
    by (simp add: trim_def str_def isWhiteSpace_def)
  have i: "\<not> includesStr (str ''Sherlock Holmes'') (str ''Find a book with: query:'')"
    by (simp add: str_def)
  have l: "length (str ''Sherlock Holmes'') = 15"
    by (simp add: str_def)
  have q: "sanitizeSearchQuery (JStr (str ''Sherlock Holmes'')) = Inr (str ''Sherlock Holmes'')"
    using example_not_dangerous by (simp add: sanitizeSearchQuery_def example_sanitized l)
  have p: "getProp exampleMessage ''parts''
      = JArr [JObj [(str ''type'', JStr (str ''text'')), (str ''text'', JStr (str ''Sherlock Holmes''))]]"
    by (simp add: exampleMessage_def textMessage_def str_def)
  have f: "getProp (JObj [(str ''type'', JStr (str ''text'')), (str ''text'', JStr (str ''Sherlock Holmes''))]) ''type''
      = JStr (str ''text'')"
     "getProp (JObj [(str ''type'', JStr (str ''text'')), (str ''text'', JStr (str ''Sherlock Holmes''))]) ''text''
      = JStr (str ''Sherlock Holmes'')"
    by (simp_all add: str_def)
  have n: "str ''Sherlock Holmes'' \<noteq> []"
    by (simp add: str_def)
  show ?thesis
    unfolding extractSearchQuery_def p
    by (simp add: f n t i q example_sanitized l del: getProp.simps)
qed

lemma validTelexMessage_truthy: "validTelexMessage m \<Longrightarrow> truthy m"
  by (cases m) (simp_all add: validTelexMessage_def)

lemma createTask_initial:
  assumes "createTask e q m sid = Inr t"
  shows "artifacts t = [] \<and> state (status t) = Working \<and> length (history t) = 1
         \<and> pushNotificationConfig t = None
         \<and> task_id t = str ''task_'' @ showNat (nowMs e) @ str ''_'' @ randomSuffix e"
  using assms
  by (auto simp: createTask_def Let_def split: if_splits sum.splits)





lemma example_params:
  "truthy exampleParams" "getProp exampleParams ''message'' = exampleMessage"
  "getProp exampleParams ''sessionId'' = JUndefined"
  by (simp_all add: exampleParams_def str_def)

lemma example_message_valid: "validTelexMessage exampleMessage"
  by (simp add: validTelexMessage_def validPart_def exampleMessage_def textMessage_def str_def)

lemma example_createTask:
  "\<exists>t. createTask e (str ''Sherlock Holmes'') exampleMessage JUndefined = Inr t"
proof -
  have p: "getProp exampleMessage ''parts''
      = JArr [JObj [(str ''type'', JStr (str ''text'')), (str ''text'', JStr (str ''Sherlock Holmes''))]]"
    by (simp add: exampleMessage_def textMessage_def str_def)
  have n: "str ''Sherlock Holmes'' \<noteq> []"
    by (simp add: str_def)
  have m: "truthy exampleMessage"
    by (simp add: exampleMessage_def textMessage_def)
  show ?thesis
    unfolding createTask_def p by (simp add: n m example_sanitized Let_def)
qed









section \<open>Failures while streaming\<close>

lemma handleMessageStream_extraction_throws:
  assumes "truthy params" and "validTelexMessage (getProp params ''message'')"
    and "extractSearchQuery (getProp params ''message'') = Inr q"
    and "createTask e q (getProp params ''message'') (getProp params ''sessionId'') = Inr t"
    and "loggerInfoThrows e = None"
    and "generate e (str ''Find a book with: query: '' @ q) = Inl err"
  shows "\<exists>msg dat i. handleMessageStream e params ident store res
      = (store(task_id t \<mapsto> t),
         res\<lparr>headWritten := True,
             frames := frames res @
               [ResultFrame (TaskStarted t (nowIso e)) ident,
                ResultFrame (Progress (task_id t) (str ''searching'')
                   (str ''Searching for books...'') (nowIso e)) ident,
                ResponseFrame (RpcError (- 32603) msg dat i)]\<rparr>)"
  using assms validTelexMessage_truthy [OF assms(2)]
  by (auto simp: handleMessageStream_def Let_def sendStreamError_def sendStreamData_def
      createErrorResponse_def)

lemma handleMessageStream_outer_catch:
  assumes "truthy params" and "validTelexMessage (getProp params ''message'')"
    and "extractSearchQuery (getProp params ''message'') = Inr q"
    and "createTask e q (getProp params ''message'') (getProp params ''sessionId'') = Inr t"
    and "loggerInfoThrows e = Some err"
  shows "\<exists>t' res'. handleMessageStream e params ident store res = (store(task_id t \<mapsto> t'), res')
      \<and> state (status t') = Canceled \<and> ended res'"
  using assms validTelexMessage_truthy [OF assms(2)]
  by (auto simp: handleMessageStream_def Let_def streamCatch_def sendStreamError_def
      sendStreamData_def intro!: exI)

text \<open>
  Claim C4. A message/stream request with the example message creates a task, and the
  agent call then fails with a timeout. The handler writes exactly one error frame, but
  it returns from the inner catch block: the stored task is still in state working and
  the stream is not ended. Only an error thrown outside the extraction reaches the
  handler that cancels the task and ends the stream.
\<close>

theorem stream_failure_leaves_task_working:
  "storedState (fst (handleMessageStream exampleEnv exampleParams (JNum 7) Map.empty newRes))
      exampleNewId = Some Working
   \<and> \<not> ended (snd (handleMessageStream exampleEnv exampleParams (JNum 7) Map.empty newRes))
   \<and> length (filter isErrorFrame
        (frames (snd (handleMessageStream exampleEnv exampleParams (JNum 7) Map.empty newRes)))) = 1
   \<and> generate exampleEnv (str ''Find a book with: query: Sherlock Holmes'')
        = Inl (OtherError (str ''Request timeout''))"
proof -
  obtain t where t: "createTask exampleEnv (str ''Sherlock Holmes'') exampleMessage JUndefined = Inr t"
    using example_createTask [of exampleEnv] by blast
  have id: "task_id t = exampleNewId" and w: "state (status t) = Working"
    using createTask_initial [OF t] by (simp_all add: exampleNewId_def)
  have g: "generate exampleEnv x = Inl (OtherError (str ''Request timeout''))" for x
    by (simp add: exampleEnv_def)
  have l: "loggerInfoThrows exampleEnv = None"
    by (simp add: exampleEnv_def)
  have v: "validTelexMessage (getProp exampleParams ''message'')"
    and x: "extractSearchQuery (getProp exampleParams ''message'') = Inr (str ''Sherlock Holmes'')"
    by (simp_all add: example_params example_message_valid example_query)
  have c: "createTask exampleEnv (str ''Sherlock Holmes'') (getProp exampleParams ''message'')
      (getProp exampleParams ''sessionId'') = Inr t"
    using t by (simp add: example_params)
  obtain msg dat i where r:
    "handleMessageStream exampleEnv exampleParams (JNum 7) Map.empty newRes
      = (Map.empty(task_id t \<mapsto> t),
         newRes\<lparr>headWritten := True,
             frames := frames newRes @
               [ResultFrame (TaskStarted t (nowIso exampleEnv)) (JNum 7),
                ResultFrame (Progress (task_id t) (str ''searching'')
                   (str ''Searching for books...'') (nowIso exampleEnv)) (JNum 7),
                ResponseFrame (RpcError (- 32603) msg dat i)]\<rparr>)"
    using handleMessageStream_extraction_throws [OF example_params(1) v x c l g, of "JNum 7" Map.empty newRes]
    by blast
  show ?thesis
    unfolding r using w g by (simp add: storedState_def id newRes_def)
qed

text \<open>
  The stream is left open after the error frame.
\<close>

theorem stream_failure_leaves_task_working_witness:
  "\<not> ended (snd (handleMessageStream exampleEnv exampleParams (JNum 7) Map.empty newRes))"
  using stream_failure_leaves_task_working by simp

end
